theory Spec2Isabelle
  imports Complex_Main
begin

section \<open>Data model of \<open>PDFToolManager\<close> (src/frontend/js/app.js)\<close>

text \<open>
  A document travels as an opaque byte blob. The only thing the extraction and merge
  services do with it is to read and to write its sequence of pages, so a blob is
  represented by that sequence; a page is an opaque content identifier.
\<close>

type_synonym pdf = "nat list"

text \<open>A browser \<open>File\<close>: name, MIME type, size and bytes.\<close>

record file_obj =
  fname :: string
  ftype :: string
  fsize :: nat
  fpages :: pdf

text \<open>
  The children of \<open>this.fileList\<close>. \<open>addFileItem\<close> and \<open>addRegularFileItem\<close> create
  nodes of class \<open>file-item\<close> carrying \<open>dataset.index\<close>; \<open>addPdfPageItem\<close> creates nodes
  of class \<open>file-item page-item\<close> carrying \<open>dataset.fileIndex\<close>, \<open>dataset.pageNum\<close> and a
  \<open>.page-checkbox\<close> child. \<open>elem\<close> is the identity of the node, \<open>dragging\<close> tells whether
  the class \<open>dragging\<close> is currently set on it.
\<close>

datatype item =
    FileItem (elem: nat) (dragging: bool) (ds_index: nat)
  | PageItem (elem: nat) (dragging: bool) (ds_fileIndex: nat) (ds_pageNum: nat) (checked: bool)

fun classList :: "item \<Rightarrow> string list" where
  "classList (FileItem e d i) = ''file-item'' # (if d then [''dragging''] else [])"
| "classList (PageItem e d fi pn c) =
     ''file-item'' # ''page-item'' # (if d then [''dragging''] else [])"

fun set_dragging :: "bool \<Rightarrow> item \<Rightarrow> item" where
  "set_dragging b (FileItem e d i) = FileItem e b i"
| "set_dragging b (PageItem e d fi pn c) = PageItem e b fi pn c"

text \<open>
  An entry of \<open>this.organizePages\<close>: \<open>{element, file, pageNum, selected}\<close>. The entry refers
  to its DOM node; the node's \<open>dataset\<close> is written once at creation, so the entry keeps
  the node's identity and the value of \<open>element.dataset.fileIndex\<close>.
\<close>

record opage =
  element :: nat
  element_fileIndex :: nat
  ofile :: file_obj
  pageNum :: nat
  selected :: bool

text \<open>A batch built by \<open>runOrganize\<close>: \<open>{fileIndex, file, pages}\<close> (\<open>bfile\<close> is its \<open>file\<close>).\<close>

record batch =
  fileIndex :: nat
  bfile :: file_obj
  pages :: "nat list"

text \<open>
  What a \<open>throw\<close> carries: \<open>new Error(message)\<close>, or a \<open>TypeError\<close> raised by the
  engine (reading a property of \<open>undefined\<close>, calling a non-function, a rejected \<open>fetch\<close>),
  or the \<open>NotFoundError\<close> of \<open>insertBefore\<close> with a reference node that is no child.
\<close>

datatype exn = Error string | TypeError | NotFoundError

text \<open>
  The two requests of \<open>runOrganize\<close>: \<open>POST /api/pdf/reorder\<close> with the fields \<open>file\<close> and
  \<open>order\<close> (the page numbers, which the source joins with commas), and
  \<open>POST /api/pdf/merge\<close> with the extracted blobs in order (the source names the i-th
  one \<open>batch_i.pdf\<close>). A response is a rejected \<open>fetch\<close>, a response that is not \<open>ok\<close>
  with its body text, or an \<open>ok\<close> response with its blob. The remote side is a parameter:
  it sees the requests issued so far and the current one.
\<close>

datatype request = Reorder file_obj "nat list" | Merge "pdf list"

datatype response = Rejected | NotOk string | Ok pdf

type_synonym service = "request list \<Rightarrow> request \<Rightarrow> response"

text \<open>The fields of a tool of \<open>getTools\<close> that the intake and the run read.\<close>

record tool =
  tname :: string
  accept :: string
  multiple :: bool

text \<open>A number read by \<open>parseInt\<close> from a \<open>dataset\<close> attribute that may be absent.\<close>

datatype jsnum = NaN | Num nat

text \<open>
  The part of \<open>this\<close> and of the page that the staging code reads and writes. The closure
  variables \<open>draggedElement\<close> (of \<open>setupPageDragSort\<close>) and \<open>draggedIndex\<close> (of
  \<open>enableFileDragSort\<close>) are fields too. \<open>nextElem\<close> numbers the DOM nodes created,
  \<open>requests\<close> and \<open>downloads\<close> record the calls of \<open>fetch\<close> and \<open>downloadBlob\<close>.
  \<open>this.organizePages\<close> is undefined until \<open>setupOrganizeMode\<close> runs; \<open>runOrganize\<close>
  treats undefined and empty alike and nothing else reads it before, so it is a list.
\<close>

record state =
  currentTool :: "tool option"
  pickedFiles :: "file_obj list"
  fileList :: "item list"
  organizePages :: "opage list"
  statusEl :: "string \<times> string"
  filesView :: bool
  draggedElement :: "nat option"
  draggedIndex :: "jsnum option"
  nextElem :: nat
  requests :: "request list"
  downloads :: "(pdf \<times> string) list"

text \<open>
  What \<open>pdfjsLib.getDocument\<close> and then \<open>getPage\<close> and \<open>render\<close> do with a file is a
  parameter of the model: loading fails, or the document has one outcome per page.
\<close>

datatype page_outcome = PageOk | GetPageFails | RenderFails

datatype pdf_load = LoadFails | Loaded "page_outcome list"

type_synonym pdfjs = "file_obj \<Rightarrow> pdf_load"

text \<open>An argument of a method as JavaScript passes it: missing, a number, or a DOM container
  with its children.\<close>

datatype jsval = JUndefined | JNum real | JNode "item list"

text \<open>\<open>getBoundingClientRect\<close> of a node: \<open>top\<close> and \<open>height\<close>.\<close>

type_synonym layout = "nat \<Rightarrow> real \<times> real"

section \<open>Status line and views\<close>

definition showStatus :: "string \<Rightarrow> string \<Rightarrow> state \<Rightarrow> state" where
  "showStatus message type st = st\<lparr>statusEl := (message, ''status-message '' @ type)\<rparr>"

definition clearStatus :: "state \<Rightarrow> state" where
  "clearStatus st = st\<lparr>statusEl := ([], ''status-message'')\<rparr>"

definition showUploadPlaceholder :: "state \<Rightarrow> state" where
  "showUploadPlaceholder st = st\<lparr>filesView := False\<rparr>"

definition showFilesView :: "state \<Rightarrow> state" where
  "showFilesView st = st\<lparr>filesView := True\<rparr>"

definition clearFiles :: "state \<Rightarrow> state" where
  "clearFiles st = showUploadPlaceholder (st\<lparr>pickedFiles := [], fileList := []\<rparr>)"

definition downloadBlob :: "pdf \<Rightarrow> string \<Rightarrow> state \<Rightarrow> state" where
  "downloadBlob blob filename st = st\<lparr>downloads := downloads st @ [(blob, filename)]\<rparr>"

section \<open>Tools\<close>

text \<open>\<open>getTools\<close>: key, \<open>accept\<close> and \<open>multiple\<close> of each tool.\<close>

definition getTools :: "(string \<times> string \<times> bool) list" where
  "getTools =
    [(''merge'', ''application/pdf'', True),
     (''split'', ''application/pdf'', False),
     (''compress'', ''application/pdf'', False),
     (''pdf-to-images'', ''application/pdf'', False),
     (''images-to-pdf'', ''image/*'', True),
     (''rotate'', ''application/pdf'', True),
     (''reorder'', ''application/pdf'', True),
     (''watermark'', ''application/pdf'', False),
     (''pagenum'', ''application/pdf'', False),
     (''protect'', ''application/pdf'', False),
     (''unlock'', ''application/pdf'', False),
     (''extract-text'', ''application/pdf'', False)]"

text \<open>
  \<open>setTool\<close>: leaving the organize tool empties \<open>organizePages\<close>; an unknown key leaves
  no tool; otherwise the files and the status are cleared and the tool's \<open>setupUI\<close>
  runs, which for the organize tool is \<open>setupOrganizeMode\<close>. The listeners that \<open>setupUI\<close>
  registers are the handler functions below.
\<close>

definition setTool :: "string \<Rightarrow> state \<Rightarrow> state" where
  "setTool key st =
    (let st1 = (case currentTool st of
                  Some t \<Rightarrow> if tname t = ''reorder'' then st\<lparr>organizePages := []\<rparr> else st
                | None \<Rightarrow> st)
     in case map_of getTools key of
          None \<Rightarrow> st1\<lparr>currentTool := None\<rparr>
        | Some (acc, mult) \<Rightarrow>
            (let st2 = clearStatus (clearFiles
                         (st1\<lparr>currentTool := Some \<lparr>tname = key, accept = acc, multiple = mult\<rparr>\<rparr>))
             in if key = ''reorder'' then st2\<lparr>organizePages := []\<rparr> else st2))"

text \<open>The state the constructor leaves.\<close>

definition initial :: state where
  "initial = \<lparr>currentTool = None, pickedFiles = [], fileList = [], organizePages = [],
     statusEl = ([], ''status-message''), filesView = False, draggedElement = None,
     draggedIndex = None, nextElem = 0, requests = [], downloads = []\<rparr>"

section \<open>Intake: \<open>handleAddFiles\<close>, \<open>addFileItem\<close>, \<open>addPdfAsPages\<close>\<close>

text \<open>
  \<open>acceptPattern = this.currentTool?.accept?.replace('*', '.*')\<close>: \<open>replace\<close> with a
  string pattern rewrites the first occurrence only.
\<close>

fun replace_star :: "string \<Rightarrow> string" where
  "replace_star [] = []"
| "replace_star (c # cs) = (if c = CHR ''*'' then ''.*'' @ cs else c # replace_star cs)"

fun starts_with :: "string \<Rightarrow> string \<Rightarrow> bool" where
  "starts_with [] s = True"
| "starts_with (p # ps) [] = False"
| "starts_with (p # ps) (c # cs) = (p = c \<and> starts_with ps cs)"

fun contains :: "string \<Rightarrow> string \<Rightarrow> bool" where
  "contains pat [] = (pat = [])"
| "contains pat (c # cs) = (starts_with pat (c # cs) \<or> contains pat cs)"

text \<open>
  \<open>f.type.match(acceptPattern)\<close> turns the string into a regular expression and searches
  for it anywhere in the type. The patterns that \<open>getTools\<close> gives rise to are
  \<open>application/pdf\<close>, which has literal characters only, and \<open>image/.*\<close>, whose \<open>.*\<close>
  matches the empty string: the type matches when it contains the literal part.
\<close>

definition type_match :: "string \<Rightarrow> string \<Rightarrow> bool" where
  "type_match ftp acceptPattern =
     (if acceptPattern = ''image/.*'' then contains ''image/'' ftp
      else contains acceptPattern ftp)"

text \<open>
  \<open>addRegularFileItem\<close>, and the second half of \<open>addFileItem\<close> (which builds the same
  node): a \<open>file-item\<close> with \<open>dataset.index = index\<close> is appended to the list.
\<close>

definition addRegularFileItem :: "file_obj \<Rightarrow> nat \<Rightarrow> state \<Rightarrow> state" where
  "addRegularFileItem f idx st =
     st\<lparr>fileList := fileList st @ [FileItem (nextElem st) False idx],
        nextElem := Suc (nextElem st)\<rparr>"

text \<open>
  \<open>addPdfPageItem\<close>: when \<open>getPage\<close> throws nothing is created; otherwise the node is
  appended to the list with its checkbox checked, and only when \<open>render\<close> succeeds too
  the entry is pushed on \<open>organizePages\<close>. Both failures are caught and logged.
\<close>

definition addPdfPageItem ::
  "page_outcome \<Rightarrow> file_obj \<Rightarrow> nat \<Rightarrow> nat \<Rightarrow> state \<Rightarrow> state" where
  "addPdfPageItem outcome originalFile fi pn st =
     (case outcome of
        GetPageFails \<Rightarrow> st
      | RenderFails \<Rightarrow>
          st\<lparr>fileList := fileList st @ [PageItem (nextElem st) False fi pn True],
             nextElem := Suc (nextElem st)\<rparr>
      | PageOk \<Rightarrow>
          st\<lparr>fileList := fileList st @ [PageItem (nextElem st) False fi pn True],
             organizePages := organizePages st @
               [\<lparr>element = nextElem st, element_fileIndex = fi, ofile = originalFile,
                 pageNum = pn, selected = True\<rparr>],
             nextElem := Suc (nextElem st)\<rparr>)"

text \<open>The loop \<open>for (pageNum = 1; pageNum <= pdf.numPages; pageNum++)\<close>.\<close>

fun addPages :: "file_obj \<Rightarrow> nat \<Rightarrow> nat \<Rightarrow> page_outcome list \<Rightarrow> state \<Rightarrow> state" where
  "addPages f fi pn [] st = st"
| "addPages f fi pn (outcome # rest) st =
     addPages f fi (Suc pn) rest (addPdfPageItem outcome f fi pn st)"

text \<open>
  \<open>addPdfAsPages\<close>: when the document cannot be loaded the \<open>catch\<close> adds a regular file
  item instead. The function is \<open>async\<close> and its callers do not await it: the model runs
  each call to its end before the caller goes on, which is the schedule where every
  \<open>await\<close> of a call completes before the next call is made. Expansions of several
  documents started by one loop can interleave their pages under other schedules; the
  status line, \<open>pickedFiles\<close> and \<open>currentTool\<close> are written by no step of an expansion, so
  they do not depend on the schedule.
\<close>

definition addPdfAsPages :: "pdfjs \<Rightarrow> file_obj \<Rightarrow> nat \<Rightarrow> state \<Rightarrow> state" where
  "addPdfAsPages js f fi st =
     (case js f of
        LoadFails \<Rightarrow> addRegularFileItem f fi st
      | Loaded outcomes \<Rightarrow> addPages f fi 1 outcomes st)"

definition addFileItem :: "pdfjs \<Rightarrow> file_obj \<Rightarrow> nat \<Rightarrow> state \<Rightarrow> state" where
  "addFileItem js f idx st =
     (case currentTool st of
        Some t \<Rightarrow>
          if tname t = ''reorder'' \<and> ftype f = ''application/pdf''
          then addPdfAsPages js f idx st
          else addRegularFileItem f idx st
      | None \<Rightarrow> addRegularFileItem f idx st)"

text \<open>
  The loop of \<open>handleAddFiles\<close>. A file whose type does not match is reported and skipped
  (\<open>continue\<close>); in a tool without \<open>multiple\<close> a file arriving while one is staged
  replaces it and ends the loop (\<open>break\<close>); otherwise the file is pushed. Without a
  current tool, reading \<open>this.currentTool.multiple\<close> throws.
\<close>

fun intake :: "pdfjs \<Rightarrow> string \<Rightarrow> file_obj list \<Rightarrow> state \<Rightarrow> exn + state" where
  "intake js acceptPattern [] st = Inr st"
| "intake js acceptPattern (f # fs) st =
     (case currentTool st of
        None \<Rightarrow> Inl TypeError
      | Some t \<Rightarrow>
          if acceptPattern \<noteq> [] \<and> \<not> type_match (ftype f) acceptPattern
          then intake js acceptPattern fs
                 (showStatus (''File \"'' @ fname f @ ''\" is not accepted for this tool'')
                    ''error'' st)
          else if \<not> multiple t \<and> pickedFiles st \<noteq> []
          then Inr (addFileItem js f 0 (st\<lparr>pickedFiles := [f], fileList := []\<rparr>))
          else intake js acceptPattern fs
                 (addFileItem js f (length (pickedFiles st))
                    (st\<lparr>pickedFiles := pickedFiles st @ [f]\<rparr>)))"

definition handleAddFiles :: "pdfjs \<Rightarrow> file_obj list \<Rightarrow> state \<Rightarrow> exn + state" where
  "handleAddFiles js files st =
     (let acceptPattern = (case currentTool st of
                             None \<Rightarrow> []
                           | Some t \<Rightarrow> replace_star (accept t));
          st1 = clearStatus st;
          st2 = (if files \<noteq> [] then showFilesView st1 else st1)
      in intake js acceptPattern files st2)"

text \<open>
  \<open>refreshFileList\<close> empties the list and adds every picked file again, under the same
  schedule: the \<open>forEach\<close> does not await \<open>addFileItem\<close>.
\<close>

fun refreshLoop :: "pdfjs \<Rightarrow> nat \<Rightarrow> file_obj list \<Rightarrow> state \<Rightarrow> state" where
  "refreshLoop js idx [] st = st"
| "refreshLoop js idx (f # fs) st = refreshLoop js (Suc idx) fs (addFileItem js f idx st)"

definition refreshFileList :: "pdfjs \<Rightarrow> state \<Rightarrow> state" where
  "refreshFileList js st = refreshLoop js 0 (pickedFiles st) (st\<lparr>fileList := []\<rparr>)"

text \<open>\<open>removeFile\<close>: \<open>splice(index, 1)\<close>, which removes nothing when the index is past
  the end.\<close>

definition removeFile :: "pdfjs \<Rightarrow> nat \<Rightarrow> state \<Rightarrow> state" where
  "removeFile js idx st =
     (let st1 = refreshFileList js
                  (st\<lparr>pickedFiles := take idx (pickedFiles st) @ drop (Suc idx) (pickedFiles st)\<rparr>)
      in if pickedFiles st1 = [] then showUploadPlaceholder st1 else st1)"

definition removePage :: "nat \<Rightarrow> state \<Rightarrow> state" where
  "removePage pageItem st =
     st\<lparr>organizePages := filter (\<lambda>p. element p \<noteq> pageItem) (organizePages st),
        fileList := filter (\<lambda>i. elem i \<noteq> pageItem) (fileList st)\<rparr>"

section \<open>Expansions as tasks: the \<open>await\<close>s of \<open>addPdfAsPages\<close>\<close>

text \<open>
  \<open>addFileItem\<close> is \<open>async\<close> and \<open>handleAddFiles\<close> does not await it. A call runs
  synchronously up to its first \<open>await\<close> and is resumed later, one stretch from \<open>await\<close>
  to \<open>await\<close> at a time, in between the stretches of the other calls. A task is a
  suspended call of \<open>addPdfAsPages\<close>: it waits for the document (\<open>file.arrayBuffer()\<close>
  and \<open>getDocument\<close>), for a page (\<open>getPage\<close>; the outcome of this page and of the pages
  after it are carried along), or for the rendering of the page whose node it has
  appended.
\<close>

datatype task =
    Loading file_obj nat
  | Getting file_obj nat nat page_outcome "page_outcome list"
  | Rendering file_obj nat nat nat page_outcome "page_outcome list"

text \<open>The head of the loop over the pages: the call of \<open>addPdfPageItem\<close> suspends at
  \<open>getPage\<close>; after the last page the expansion is over.\<close>

fun next_page :: "file_obj \<Rightarrow> nat \<Rightarrow> nat \<Rightarrow> page_outcome list \<Rightarrow> task list" where
  "next_page f fi pn [] = []"
| "next_page f fi pn (outcome # rest) = [Getting f fi pn outcome rest]"

text \<open>
  One stretch of a task, up to its next \<open>await\<close>. When the document cannot be loaded the
  \<open>catch\<close> of \<open>addPdfAsPages\<close> adds a regular file item. When \<open>getPage\<close> resolves the node is
  built and appended and the call suspends at \<open>render\<close>; when \<open>render\<close> resolves the entry
  is pushed on \<open>organizePages\<close>. A failure of either is caught and logged, and the loop
  goes on with the next page.
\<close>

fun resume :: "pdfjs \<Rightarrow> task \<Rightarrow> state \<Rightarrow> state \<times> task list" where
  "resume js (Loading f fi) st =
     (case js f of
        LoadFails \<Rightarrow> (addRegularFileItem f fi st, [])
      | Loaded outcomes \<Rightarrow> (st, next_page f fi 1 outcomes))"
| "resume js (Getting f fi pn outcome rest) st =
     (if outcome = GetPageFails then (st, next_page f fi (Suc pn) rest)
      else (st\<lparr>fileList := fileList st @ [PageItem (nextElem st) False fi pn True],
               nextElem := Suc (nextElem st)\<rparr>,
            [Rendering f fi pn (nextElem st) outcome rest]))"
| "resume js (Rendering f fi pn e outcome rest) st =
     (if outcome = PageOk
      then st\<lparr>organizePages := organizePages st @
                 [\<lparr>element = e, element_fileIndex = fi, ofile = f, pageNum = pn,
                   selected = True\<rparr>]\<rparr>
      else st,
      next_page f fi (Suc pn) rest)"

text \<open>
  The page with its suspended tasks. \<open>advance js i\<close> resumes the task at position \<open>i\<close> for
  one stretch (and does nothing when there is no such task); a schedule is the list of
  the positions chosen.
\<close>

definition advance :: "pdfjs \<Rightarrow> nat \<Rightarrow> state \<times> task list \<Rightarrow> state \<times> task list" where
  "advance js i c =
     (if i < length (snd c)
      then (case resume js (snd c ! i) (fst c) of
              (st', k) \<Rightarrow> (st', take i (snd c) @ k @ drop (Suc i) (snd c)))
      else c)"

fun run_schedule :: "pdfjs \<Rightarrow> nat list \<Rightarrow> state \<times> task list \<Rightarrow> state \<times> task list" where
  "run_schedule js [] c = c"
| "run_schedule js (i # sched) c = run_schedule js sched (advance js i c)"

text \<open>
  The synchronous part of \<open>addFileItem\<close>: in the organize tool a PDF file starts a task
  and nothing else happens before the first \<open>await\<close>; any other file gets its item at
  once (the \<open>await\<close> of \<open>renderFileThumb\<close> comes after \<open>appendChild\<close>).
\<close>

definition addFileItem_async ::
  "file_obj \<Rightarrow> nat \<Rightarrow> state \<times> task list \<Rightarrow> state \<times> task list" where
  "addFileItem_async f idx c =
     (case currentTool (fst c) of
        Some t \<Rightarrow>
          if tname t = ''reorder'' \<and> ftype f = ''application/pdf''
          then (fst c, snd c @ [Loading f idx])
          else (addRegularFileItem f idx (fst c), snd c)
      | None \<Rightarrow> (addRegularFileItem f idx (fst c), snd c))"

text \<open>The loop of \<open>handleAddFiles\<close> and \<open>handleAddFiles\<close> itself, as they return: with the
  expansions started and none resumed.\<close>

fun intake_async ::
  "string \<Rightarrow> file_obj list \<Rightarrow> state \<times> task list \<Rightarrow> exn + state \<times> task list" where
  "intake_async acceptPattern [] c = Inr c"
| "intake_async acceptPattern (f # fs) c =
     (case currentTool (fst c) of
        None \<Rightarrow> Inl TypeError
      | Some t \<Rightarrow>
          if acceptPattern \<noteq> [] \<and> \<not> type_match (ftype f) acceptPattern
          then intake_async acceptPattern fs
                 (showStatus (''File \"'' @ fname f @ ''\" is not accepted for this tool'')
                    ''error'' (fst c), snd c)
          else if \<not> multiple t \<and> pickedFiles (fst c) \<noteq> []
          then Inr (addFileItem_async f 0 ((fst c)\<lparr>pickedFiles := [f], fileList := []\<rparr>, snd c))
          else intake_async acceptPattern fs
                 (addFileItem_async f (length (pickedFiles (fst c)))
                    ((fst c)\<lparr>pickedFiles := pickedFiles (fst c) @ [f]\<rparr>, snd c)))"

definition handleAddFiles_async ::
  "file_obj list \<Rightarrow> state \<times> task list \<Rightarrow> exn + state \<times> task list" where
  "handleAddFiles_async files c =
     (let acceptPattern = (case currentTool (fst c) of
                             None \<Rightarrow> []
                           | Some t \<Rightarrow> replace_star (accept t));
          st1 = clearStatus (fst c);
          st2 = (if files \<noteq> [] then showFilesView st1 else st1)
      in intake_async acceptPattern files (st2, snd c))"

text \<open>What the user reads off the page apart from the list: the status line, the picked
  files and the tool.\<close>

definition notice :: "state \<Rightarrow> (string \<times> string) \<times> file_obj list \<times> tool option" where
  "notice st = (statusEl st, pickedFiles st, currentTool st)"

text \<open>A number of stretches that ends any expansion of the file alone: one for the
  document and at most two for each page.\<close>

definition stretches :: "pdfjs \<Rightarrow> file_obj \<Rightarrow> nat" where
  "stretches js f = (case js f of LoadFails \<Rightarrow> 1 | Loaded outcomes \<Rightarrow> Suc (2 * length outcomes))"

section \<open>Reconstruction: \<open>runOrganize\<close>\<close>

text \<open>
  The body of \<open>selectedPageItems.forEach\<close>. \<open>currentBatch\<close> is the batch pushed last, so
  it is null exactly when \<open>batches\<close> is empty, and pushing a page on it changes the last
  element of \<open>batches\<close>. \<open>organizePages.find(...)\<close> yields the first entry whose node has
  the item's \<open>fileIndex\<close>; when there is none, reading \<open>.file\<close> throws. A node without
  \<open>dataset.fileIndex\<close> gives \<open>NaN\<close>, which no entry equals.
\<close>

definition batch_step :: "opage list \<Rightarrow> batch list \<Rightarrow> item \<Rightarrow> exn + batch list" where
  "batch_step ops batches it =
     (case it of
        FileItem e d i \<Rightarrow> Inl TypeError
      | PageItem e d fi pn c \<Rightarrow>
          (case List.find (\<lambda>p. element_fileIndex p = fi) ops of
             None \<Rightarrow> Inl TypeError
           | Some p \<Rightarrow>
               if batches = [] \<or> fileIndex (last batches) \<noteq> fi
               then Inr (batches @ [\<lparr>fileIndex = fi, bfile = ofile p, pages = [pn]\<rparr>])
               else Inr (butlast batches @
                         [(last batches)\<lparr>pages := pages (last batches) @ [pn]\<rparr>])))"

fun forEach_batches :: "opage list \<Rightarrow> batch list \<Rightarrow> item list \<Rightarrow> exn + batch list" where
  "forEach_batches ops batches [] = Inr batches"
| "forEach_batches ops batches (it # its) =
     (case batch_step ops batches it of
        Inl e \<Rightarrow> Inl e
      | Inr batches' \<Rightarrow> forEach_batches ops batches' its)"

text \<open>\<open>selectedPageItems\<close>: the \<open>.page-item\<close> nodes of the list whose checkbox is checked,
  in DOM order.\<close>

fun is_selected_page :: "item \<Rightarrow> bool" where
  "is_selected_page (PageItem e d fi pn c) = c"
| "is_selected_page (FileItem e d i) = False"

definition selectedPageItems :: "state \<Rightarrow> item list" where
  "selectedPageItems st = filter is_selected_page (fileList st)"

text \<open>
  The loop \<open>for (const batch of batches)\<close>: one request per batch, each sent after the
  previous response has arrived; the first response that is not \<open>ok\<close> ends the run with
  \<open>new Error(errorText || 'Failed to extract pages')\<close>.
\<close>

fun extract_loop :: "service \<Rightarrow> batch list \<Rightarrow> pdf list \<Rightarrow> state \<Rightarrow> (exn + pdf list) \<times> state" where
  "extract_loop svc [] extractedPdfs st = (Inr extractedPdfs, st)"
| "extract_loop svc (b # bs) extractedPdfs st =
     (let rq = Reorder (bfile b) (pages b);
          st' = st\<lparr>requests := requests st @ [rq]\<rparr>
      in case svc (requests st) rq of
           Rejected \<Rightarrow> (Inl TypeError, st')
         | NotOk errorText \<Rightarrow>
             (Inl (Error (if errorText = [] then ''Failed to extract pages'' else errorText)), st')
         | Ok pdfBlob \<Rightarrow> extract_loop svc bs (extractedPdfs @ [pdfBlob]) st')"

definition runOrganize :: "service \<Rightarrow> state \<Rightarrow> (exn + unit) \<times> state" where
  "runOrganize svc st =
     (if organizePages st = [] then (Inl (Error ''Please upload PDF files first''), st)
      else if selectedPageItems st = []
      then (Inl (Error ''Please select at least one page to include''), st)
      else case forEach_batches (organizePages st) [] (selectedPageItems st) of
             Inl e \<Rightarrow> (Inl e, st)
           | Inr batches \<Rightarrow>
               (case extract_loop svc batches [] st of
                  (Inl e, st1) \<Rightarrow> (Inl e, st1)
                | (Inr extractedPdfs, st1) \<Rightarrow>
                    if length extractedPdfs = 1
                    then (Inr (), downloadBlob (extractedPdfs ! 0) ''organized.pdf'' st1)
                    else
                      (let rq = Merge extractedPdfs;
                           st2 = st1\<lparr>requests := requests st1 @ [rq]\<rparr>
                       in case svc (requests st1) rq of
                            Rejected \<Rightarrow> (Inl TypeError, st2)
                          | NotOk errorText \<Rightarrow>
                              (Inl (Error (if errorText = [] then ''Merge failed'' else errorText)),
                               st2)
                          | Ok finalBlob \<Rightarrow>
                              (Inr (), downloadBlob finalBlob ''organized.pdf'' st2))))"

section \<open>Rearrangement: the drag handlers\<close>

text \<open>
  \<open>appendChild\<close> and \<open>insertBefore\<close> on the children of a container. A node that is
  already a child is moved, not copied. The dragged node is found by its identity among
  the children, where it stays for the whole gesture. \<open>insertBefore\<close> with the node
  itself as reference leaves the list as it is.
\<close>

definition appendChild :: "nat \<Rightarrow> item list \<Rightarrow> item list" where
  "appendChild e xs =
     (case List.find (\<lambda>i. elem i = e) xs of
        None \<Rightarrow> xs
      | Some it \<Rightarrow> filter (\<lambda>i. elem i \<noteq> e) xs @ [it])"

definition insertBefore :: "nat \<Rightarrow> nat \<Rightarrow> item list \<Rightarrow> exn + item list" where
  "insertBefore e a xs =
     (case List.find (\<lambda>i. elem i = e) xs of
        None \<Rightarrow> Inr xs
      | Some it \<Rightarrow>
          if a = e then Inr xs
          else if List.find (\<lambda>i. elem i = a) xs = None then Inl NotFoundError
          else (let rest = filter (\<lambda>i. elem i \<noteq> e) xs
                in Inr (takeWhile (\<lambda>i. elem i \<noteq> a) rest @ it #
                        dropWhile (\<lambda>i. elem i \<noteq> a) rest)))"

text \<open>
  The class declares \<open>getDragAfterElement\<close> twice: \<open>getDragAfterElement(y)\<close> at line 1023
  and \<open>getDragAfterElement(container, y)\<close> at line 1899. A class body keeps the last
  declaration of a method name, so every call \<open>this.getDragAfterElement(...)\<close> runs the
  second one, also the call with one argument in \<open>enableFileDragSort\<close>: there
  \<open>container\<close> is the number \<open>e.clientY\<close> and \<open>y\<close> is undefined.

  The body: among the nodes of the container that match the selector, the one with the
  greatest negative \<open>offset = y - box.top - box.height / 2\<close>; \<open>undefined\<close> when there is
  none. The accumulator starts at \<open>{offset: -Infinity}\<close>, here \<open>(None, None)\<close>. With
  \<open>y\<close> undefined the offset is \<open>NaN\<close> and both comparisons are false.
\<close>

definition closest_step ::
  "layout \<Rightarrow> jsval \<Rightarrow> real option \<times> item option \<Rightarrow> item \<Rightarrow> real option \<times> item option" where
  "closest_step box y closest child =
     (case y of
        JNum v \<Rightarrow>
          (let offset = v - fst (box (elem child)) - snd (box (elem child)) / 2
           in if offset < 0 \<and> (case fst closest of None \<Rightarrow> True | Some c \<Rightarrow> offset > c)
              then (Some offset, Some child) else closest)
      | JUndefined \<Rightarrow> closest
      | JNode ns \<Rightarrow> closest)"

text \<open>The declaration at line 1899, the one in force. The selector is
  \<open>.organize-page-item:not(.dragging)\<close>; a value that is no DOM node has no
  \<open>querySelectorAll\<close>, and calling it throws.\<close>

definition getDragAfterElement :: "layout \<Rightarrow> jsval \<Rightarrow> jsval \<Rightarrow> exn + item option" where
  "getDragAfterElement box container y =
     (case container of
        JNode children \<Rightarrow>
          Inr (snd (foldl (closest_step box y) (None, None)
                 (filter (\<lambda>c. ''organize-page-item'' \<in> set (classList c) \<and>
                              ''dragging'' \<notin> set (classList c)) children)))
      | JNum v \<Rightarrow> Inl TypeError
      | JUndefined \<Rightarrow> Inl TypeError)"

text \<open>The declaration at line 1023, which the later one replaces: it reads
  \<open>this.fileList\<close> with the selector \<open>.file-item:not(.dragging)\<close>.\<close>

definition getDragAfterElement_overridden :: "layout \<Rightarrow> item list \<Rightarrow> real \<Rightarrow> item option" where
  "getDragAfterElement_overridden box children y =
     snd (foldl (closest_step box (JNum y)) (None, None)
            (filter (\<lambda>c. ''file-item'' \<in> set (classList c) \<and>
                         ''dragging'' \<notin> set (classList c)) children))"

text \<open>
  The listeners of \<open>setupPageDragSort\<close> (organize tool). \<open>dragstart\<close> on a \<open>page-item\<close>
  remembers the node and marks it \<open>dragging\<close>; \<open>dragend\<close> undoes both; \<open>dragover\<close> at
  pointer height \<open>y\<close> moves the remembered node before the node that
  \<open>getDragAfterElement(this.fileList, e.clientY)\<close> returns, or to the end when it returns
  none.
\<close>

fun is_page_item :: "item \<Rightarrow> bool" where
  "is_page_item (PageItem e d fi pn c) = True"
| "is_page_item (FileItem e d i) = False"

definition mark_dragging :: "bool \<Rightarrow> nat \<Rightarrow> item list \<Rightarrow> item list" where
  "mark_dragging b target xs = map (\<lambda>i. if elem i = target then set_dragging b i else i) xs"

definition page_dragstart :: "nat \<Rightarrow> state \<Rightarrow> state" where
  "page_dragstart target st =
     (case List.find (\<lambda>i. elem i = target) (fileList st) of
        None \<Rightarrow> st
      | Some it \<Rightarrow>
          if is_page_item it
          then st\<lparr>draggedElement := Some target,
                  fileList := mark_dragging True target (fileList st)\<rparr>
          else st)"

definition page_dragend :: "nat \<Rightarrow> state \<Rightarrow> state" where
  "page_dragend target st =
     (case List.find (\<lambda>i. elem i = target) (fileList st) of
        None \<Rightarrow> st
      | Some it \<Rightarrow>
          if is_page_item it
          then st\<lparr>draggedElement := None,
                  fileList := mark_dragging False target (fileList st)\<rparr>
          else st)"

definition page_dragover :: "layout \<Rightarrow> real \<Rightarrow> state \<Rightarrow> exn + state" where
  "page_dragover box y st =
     (case draggedElement st of
        None \<Rightarrow> Inr st
      | Some e \<Rightarrow>
          (case getDragAfterElement box (JNode (fileList st)) (JNum y) of
             Inl x \<Rightarrow> Inl x
           | Inr None \<Rightarrow> Inr (st\<lparr>fileList := appendChild e (fileList st)\<rparr>)
           | Inr (Some afterElement) \<Rightarrow>
               (case insertBefore e (elem afterElement) (fileList st) of
                  Inl x \<Rightarrow> Inl x
                | Inr xs \<Rightarrow> Inr (st\<lparr>fileList := xs\<rparr>))))"

text \<open>
  A whole gesture on a page: \<open>dragstart\<close>, one \<open>dragover\<close> per pointer event, each with
  the layout of that moment and the pointer height, then \<open>dragend\<close>. An exception in a
  listener ends that listener only; the state is as the listener left it, which for
  \<open>dragover\<close> is unchanged. The gesture runs the listeners of \<open>setupPageDragSort\<close> only:
  it describes a page that opened the organize tool without having opened the merge or
  images-to-pdf tool before, since the listeners of \<open>enableFileDragSort\<close> are registered
  on the same list and never removed.
\<close>

fun page_dragovers :: "(layout \<times> real) list \<Rightarrow> state \<Rightarrow> state" where
  "page_dragovers [] st = st"
| "page_dragovers ((box, y) # evs) st =
     page_dragovers evs (case page_dragover box y st of Inl x \<Rightarrow> st | Inr st' \<Rightarrow> st')"

definition drag_page :: "nat \<Rightarrow> (layout \<times> real) list \<Rightarrow> state \<Rightarrow> state" where
  "drag_page target evs st = page_dragend target (page_dragovers evs (page_dragstart target st))"

text \<open>
  The listeners of \<open>enableFileDragSort\<close> (merge and images-to-pdf tools). \<open>dragstart\<close>
  reads \<open>dataset.index\<close> of the node and marks it; \<open>dragover\<close> calls
  \<open>this.getDragAfterElement(e.clientY)\<close> and moves the node marked \<open>dragging\<close>; \<open>drop\<close>
  rebuilds \<open>pickedFiles\<close> from the \<open>dataset.index\<close> of the children in DOM order and
  refreshes the list. When an index is \<open>NaN\<close> or past the end, \<open>pickedFiles\<close> receives
  \<open>undefined\<close>, the list is emptied and \<open>addFileItem\<close> rejects with a \<open>TypeError\<close> on
  reading the file; a list of picked files with \<open>undefined\<close> in it has no counterpart in
  \<open>state\<close>, and \<open>file_drop\<close> marks this branch with \<open>Inl TypeError\<close> without describing the
  state it leaves. The branch needs a child without \<open>dataset.index\<close>, or one whose index
  is not a position of \<open>pickedFiles\<close>; the items that \<open>handleAddFiles\<close> and
  \<open>refreshFileList\<close> create in these tools have neither, and no property below is stated
  for it.
\<close>

fun dataset_index :: "item \<Rightarrow> jsnum" where
  "dataset_index (FileItem e d i) = Num i"
| "dataset_index (PageItem e d fi pn c) = NaN"

definition file_dragstart :: "nat \<Rightarrow> state \<Rightarrow> state" where
  "file_dragstart target st =
     (case List.find (\<lambda>i. elem i = target) (fileList st) of
        None \<Rightarrow> st
      | Some it \<Rightarrow>
          st\<lparr>draggedIndex := Some (dataset_index it),
             fileList := mark_dragging True target (fileList st)\<rparr>)"

definition file_dragend :: "nat \<Rightarrow> state \<Rightarrow> state" where
  "file_dragend target st =
     (case List.find (\<lambda>i. elem i = target) (fileList st) of
        None \<Rightarrow> st
      | Some it \<Rightarrow>
          st\<lparr>draggedIndex := None,
             fileList := mark_dragging False target (fileList st)\<rparr>)"

definition file_dragover :: "layout \<Rightarrow> real \<Rightarrow> state \<Rightarrow> exn + state" where
  "file_dragover box y st =
     (case getDragAfterElement box (JNum y) JUndefined of
        Inl x \<Rightarrow> Inl x
      | Inr afterElement \<Rightarrow>
          (case List.find dragging (fileList st) of
             None \<Rightarrow> Inl TypeError
           | Some d \<Rightarrow>
               (case afterElement of
                  None \<Rightarrow> Inr (st\<lparr>fileList := appendChild (elem d) (fileList st)\<rparr>)
                | Some a \<Rightarrow>
                    (case insertBefore (elem d) (elem a) (fileList st) of
                       Inl x \<Rightarrow> Inl x
                     | Inr xs \<Rightarrow> Inr (st\<lparr>fileList := xs\<rparr>)))))"

fun index_in_range :: "nat \<Rightarrow> jsnum \<Rightarrow> bool" where
  "index_in_range n NaN = False"
| "index_in_range n (Num i) = (i < n)"

fun picked_at :: "file_obj list \<Rightarrow> jsnum \<Rightarrow> file_obj list" where
  "picked_at fs NaN = []"
| "picked_at fs (Num i) = (if i < length fs then [fs ! i] else [])"

definition file_drop :: "pdfjs \<Rightarrow> state \<Rightarrow> exn + state" where
  "file_drop js st =
     (if draggedIndex st = None then Inr st
      else (let newOrder = map dataset_index (fileList st)
            in if list_all (index_in_range (length (pickedFiles st))) newOrder
               then Inr (refreshFileList js
                           (st\<lparr>pickedFiles := concat (map (picked_at (pickedFiles st)) newOrder)\<rparr>))
               else Inl TypeError))"

fun file_dragovers :: "(layout \<times> real) list \<Rightarrow> state \<Rightarrow> state" where
  "file_dragovers [] st = st"
| "file_dragovers ((box, y) # evs) st =
     file_dragovers evs (case file_dragover box y st of Inl x \<Rightarrow> st | Inr st' \<Rightarrow> st')"

text \<open>A whole gesture on a file: \<open>dragstart\<close>, the \<open>dragover\<close>s, \<open>drop\<close>, \<open>dragend\<close>.\<close>

definition drag_file :: "pdfjs \<Rightarrow> nat \<Rightarrow> (layout \<times> real) list \<Rightarrow> state \<Rightarrow> state" where
  "drag_file js target evs st =
     (let st1 = file_dragovers evs (file_dragstart target st)
      in file_dragend target (case file_drop js st1 of Inl x \<Rightarrow> st1 | Inr st2 \<Rightarrow> st2))"

section \<open>The collaborators and the vocabulary of the specification\<close>

text \<open>
  Modelled from the spec: the PageExtractionService behind \<open>/api/pdf/reorder\<close>, whose
  code is not part of the front end. It "accepts a source document's bytes plus an
  ordered, comma-separated list of 1-based page numbers; returns a new document
  containing exactly those pages in exactly that order", and an error is an HTTP-level
  failure with a message body. A page number outside the document is taken to be such an
  error; the text of the message is not specified and stands for any.
\<close>

definition PageExtractionService :: "file_obj \<Rightarrow> nat list \<Rightarrow> response" where
  "PageExtractionService f ns =
     (if list_all (\<lambda>n. 1 \<le> n \<and> n \<le> length (fpages f)) ns
      then Ok (map (\<lambda>n. fpages f ! (n - 1)) ns)
      else NotOk ''page out of range'')"

text \<open>
  Modelled from the spec: the DocumentMergeService behind \<open>/api/pdf/merge\<close>, which
  "accepts an ordered list of documents; returns one document that is their
  concatenation in the given order".
\<close>

definition DocumentMergeService :: "pdf list \<Rightarrow> response" where
  "DocumentMergeService docs = Ok (concat docs)"

definition spec_services :: service where
  "spec_services history rq =
     (case rq of
        Reorder f ns \<Rightarrow> PageExtractionService f ns
      | Merge docs \<Rightarrow> DocumentMergeService docs)"

text \<open>
  The batches as the specification words them: one batch per maximal contiguous run
  of items with the same source document, in display order. An item is given by what
  identifies its document and by its page number.
\<close>

function spec_runs :: "('k \<times> nat) list \<Rightarrow> ('k \<times> nat list) list" where
  "spec_runs [] = []"
| "spec_runs ((d, p) # xs) =
     (d, p # map snd (takeWhile (\<lambda>x. fst x = d) xs)) # spec_runs (dropWhile (\<lambda>x. fst x = d) xs)"
  by pat_completeness auto
termination
  by (relation "measure length") (auto simp: le_imp_less_Suc length_dropWhile_le)

text \<open>The document index and page number of a page item; a file item has none.\<close>

fun page_key :: "item \<Rightarrow> (nat \<times> nat) list" where
  "page_key (PageItem e d fi pn c) = [(fi, pn)]"
| "page_key (FileItem e d i) = []"

definition page_keys :: "item list \<Rightarrow> (nat \<times> nat) list" where
  "page_keys its = concat (map page_key its)"

text \<open>An item is registered when it is a page item and \<open>organizePages\<close> has an entry
  with its \<open>fileIndex\<close>.\<close>

fun registered :: "opage list \<Rightarrow> item \<Rightarrow> bool" where
  "registered ops (PageItem e d fi pn c) = (List.find (\<lambda>p. element_fileIndex p = fi) ops \<noteq> None)"
| "registered ops (FileItem e d i) = False"

text \<open>
  The page sequence that a snapshot denotes: for each included item, in display order,
  the page \<open>pageNum\<close> of the file that the item's own entry of \<open>organizePages\<close> records
  (the entry whose \<open>element\<close> is the item).
\<close>

fun snapshot_page :: "opage list \<Rightarrow> item \<Rightarrow> pdf" where
  "snapshot_page ops (PageItem e d fi pn c) =
     (case List.find (\<lambda>p. element p = e) ops of
        None \<Rightarrow> []
      | Some p \<Rightarrow> if 1 \<le> pn \<and> pn \<le> length (fpages (ofile p)) then [fpages (ofile p) ! (pn - 1)] else [])"
| "snapshot_page ops (FileItem e d i) = []"

definition snapshot_pages :: "state \<Rightarrow> pdf" where
  "snapshot_pages st = concat (map (snapshot_page (organizePages st)) (selectedPageItems st))"

text \<open>The page entries of a list as the user sees them: document index, page number
  and inclusion flag, in display order.\<close>

fun page_entry :: "item \<Rightarrow> (nat \<times> nat \<times> bool) list" where
  "page_entry (PageItem e d fi pn c) = [(fi, pn, c)]"
| "page_entry (FileItem e d i) = []"

definition page_entries :: "item list \<Rightarrow> (nat \<times> nat \<times> bool) list" where
  "page_entries its = concat (map page_entry its)"

text \<open>The part of the state that makes up the staging sequence.\<close>

definition staging :: "state \<Rightarrow> file_obj list \<times> item list \<times> opage list" where
  "staging st = (pickedFiles st, fileList st, organizePages st)"

text \<open>The request that \<open>runOrganize\<close> sends for a batch.\<close>

definition batch_request :: "batch \<Rightarrow> request" where
  "batch_request b = Reorder (bfile b) (pages b)"

text \<open>
  The responses that the extraction loop meets on a list of batches, each request being
  answered after the ones before it.
\<close>

fun replies :: "service \<Rightarrow> request list \<Rightarrow> batch list \<Rightarrow> response list" where
  "replies svc history [] = []"
| "replies svc history (b # bs) =
     svc history (batch_request b) # replies svc (history @ [batch_request b]) bs"

text \<open>The page numbers for which \<open>addPdfPageItem\<close> creates a node: those of the pages
  that \<open>getPage\<close> delivers.\<close>

definition created_pages :: "page_outcome list \<Rightarrow> nat list" where
  "created_pages outcomes =
     map snd (filter (\<lambda>x. fst x \<noteq> GetPageFails) (zip outcomes [1..<Suc (length outcomes)]))"

text \<open>Two states agree when they differ at most in the status line, the view shown,
  the drag variables and the logs of requests and downloads.\<close>

definition agree :: "state \<Rightarrow> state \<Rightarrow> bool" where
  "agree st st' =
     (currentTool st = currentTool st' \<and> pickedFiles st = pickedFiles st' \<and>
      fileList st = fileList st' \<and> organizePages st = organizePages st' \<and>
      nextElem st = nextElem st')"

text \<open>
  An item is consistent when the first entry of \<open>organizePages\<close> with its \<open>fileIndex\<close>
  records the same file as the item's own entry, and its page number lies within that
  file.
\<close>

fun consistent_item :: "opage list \<Rightarrow> item \<Rightarrow> bool" where
  "consistent_item ops (PageItem e d fi pn c) =
     (case List.find (\<lambda>p. element_fileIndex p = fi) ops of
        None \<Rightarrow> False
      | Some p \<Rightarrow>
          (case List.find (\<lambda>q. element q = e) ops of
             None \<Rightarrow> False
           | Some q \<Rightarrow> ofile p = ofile q \<and> 1 \<le> pn \<and> pn \<le> length (fpages (ofile q))))"
| "consistent_item ops (FileItem e d i) = False"

text \<open>The pages that a batch asks for, and whether all its page numbers lie within its
  file.\<close>

definition batch_doc :: "batch \<Rightarrow> pdf" where
  "batch_doc b = map (\<lambda>n. fpages (bfile b) ! (n - 1)) (pages b)"

definition batch_valid :: "batch \<Rightarrow> bool" where
  "batch_valid b = list_all (\<lambda>n. 1 \<le> n \<and> n \<le> length (fpages (bfile b))) (pages b)"

text \<open>A batch carries the file that \<open>organizePages\<close> gives for its index.\<close>

definition batch_file_ok :: "opage list \<Rightarrow> batch \<Rightarrow> bool" where
  "batch_file_ok ops b =
     (map_option ofile (List.find (\<lambda>p. element_fileIndex p = fileIndex b) ops) = Some (bfile b))"

text \<open>
  The source document of a page item: the file that the item's own entry of
  \<open>organizePages\<close> records, under the index that the item carries. The lookup of
  \<open>runOrganize\<close> agrees with an item when the first entry with the item's \<open>fileIndex\<close>
  records that same file.
\<close>

fun item_doc :: "opage list \<Rightarrow> item \<Rightarrow> file_obj option" where
  "item_doc ops (PageItem e d fi pn c) = map_option ofile (List.find (\<lambda>q. element q = e) ops)"
| "item_doc ops (FileItem e d i) = None"

fun lookup_agrees :: "opage list \<Rightarrow> item \<Rightarrow> bool" where
  "lookup_agrees ops (PageItem e d fi pn c) =
     (case List.find (\<lambda>q. element q = e) ops of
        None \<Rightarrow> False
      | Some q \<Rightarrow> map_option ofile (List.find (\<lambda>p. element_fileIndex p = fi) ops) = Some (ofile q))"
| "lookup_agrees ops (FileItem e d i) = False"

fun doc_key :: "opage list \<Rightarrow> item \<Rightarrow> ((nat \<times> file_obj) \<times> nat) list" where
  "doc_key ops (PageItem e d fi pn c) =
     (case List.find (\<lambda>q. element q = e) ops of
        None \<Rightarrow> []
      | Some q \<Rightarrow> [((fi, ofile q), pn)])"
| "doc_key ops (FileItem e d i) = []"

definition doc_keys :: "opage list \<Rightarrow> item list \<Rightarrow> ((nat \<times> file_obj) \<times> nat) list" where
  "doc_keys ops its = concat (map (doc_key ops) its)"

section \<open>Example inputs\<close>

definition ex_A :: file_obj where
  "ex_A = \<lparr>fname = ''a.pdf'', ftype = ''application/pdf'', fsize = 500, fpages = [10, 11, 12, 13, 14]\<rparr>"

definition ex_B :: file_obj where
  "ex_B = \<lparr>fname = ''b.pdf'', ftype = ''application/pdf'', fsize = 200, fpages = [20, 21]\<rparr>"

definition reorder_tool :: tool where
  "reorder_tool = \<lparr>tname = ''reorder'', accept = ''application/pdf'', multiple = True\<rparr>"

definition ex_entries :: "opage list" where
  "ex_entries =
     [\<lparr>element = 0, element_fileIndex = 0, ofile = ex_A, pageNum = 1, selected = True\<rparr>,
      \<lparr>element = 1, element_fileIndex = 0, ofile = ex_A, pageNum = 2, selected = True\<rparr>,
      \<lparr>element = 2, element_fileIndex = 0, ofile = ex_A, pageNum = 3, selected = True\<rparr>,
      \<lparr>element = 3, element_fileIndex = 0, ofile = ex_A, pageNum = 4, selected = True\<rparr>,
      \<lparr>element = 4, element_fileIndex = 0, ofile = ex_A, pageNum = 5, selected = True\<rparr>,
      \<lparr>element = 5, element_fileIndex = 1, ofile = ex_B, pageNum = 1, selected = True\<rparr>,
      \<lparr>element = 6, element_fileIndex = 1, ofile = ex_B, pageNum = 2, selected = True\<rparr>]"

text \<open>
  Two documents A (index 0, five pages) and B (index 1, two pages); the included items
  are A:p1, A:p3, B:p2, A:p5 in this order, with the excluded items B:p1 and A:p2 in
  between.
\<close>

definition ex_organize :: state where
  "ex_organize =
     \<lparr>currentTool = Some reorder_tool, pickedFiles = [ex_A, ex_B],
      fileList = [PageItem 0 False 0 1 True, PageItem 5 False 1 1 False,
                  PageItem 2 False 0 3 True, PageItem 6 False 1 2 True,
                  PageItem 1 False 0 2 False, PageItem 4 False 0 5 True],
      organizePages = ex_entries,
      statusEl = ([], ''status-message''), filesView = True, draggedElement = None,
      draggedIndex = None, nextElem = 7, requests = [], downloads = []\<rparr>"

text \<open>The same documents, with pages 2 and 1 of A included only, in this order.\<close>

definition ex_single :: state where
  "ex_single =
     ex_organize\<lparr>fileList := [PageItem 1 False 0 2 True, PageItem 5 False 1 1 False,
                              PageItem 0 False 0 1 True]\<rparr>"

text \<open>The same documents, nothing included.\<close>

definition ex_none :: state where
  "ex_none =
     ex_organize\<lparr>fileList := [PageItem 0 False 0 1 False, PageItem 5 False 1 1 False]\<rparr>"

text \<open>A remote side that works as specified, except that its request number \<open>k\<close>
  (counted from 0) is answered with a failure carrying the text \<open>t\<close>.\<close>

definition fail_at :: "nat \<Rightarrow> string \<Rightarrow> service" where
  "fail_at k t history rq = (if length history = k then NotOk t else spec_services history rq)"

text \<open>An image, a file of type \<open>application/pdf\<close> that cannot be loaded, and a
  \<open>pdfjsLib\<close> that loads every file with at least one page and renders all its pages.\<close>

definition ex_img :: file_obj where
  "ex_img = \<lparr>fname = ''c.png'', ftype = ''image/png'', fsize = 300, fpages = []\<rparr>"

definition ex_X :: file_obj where
  "ex_X = \<lparr>fname = ''x.pdf'', ftype = ''application/pdf'', fsize = 50, fpages = []\<rparr>"

definition ex_js :: pdfjs where
  "ex_js f = (if fpages f = [] then LoadFails else Loaded (map (\<lambda>p. PageOk) (fpages f)))"

definition merge_tool :: tool where
  "merge_tool = \<lparr>tname = ''merge'', accept = ''application/pdf'', multiple = True\<rparr>"

definition split_tool :: tool where
  "split_tool = \<lparr>tname = ''split'', accept = ''application/pdf'', multiple = False\<rparr>"

text \<open>The merge tool with A and B staged, and the split tool with A staged.\<close>

definition ex_merge :: state where
  "ex_merge =
     \<lparr>currentTool = Some merge_tool, pickedFiles = [ex_A, ex_B],
      fileList = [FileItem 0 False 0, FileItem 1 False 1], organizePages = [],
      statusEl = ([], ''status-message''), filesView = True, draggedElement = None,
      draggedIndex = None, nextElem = 2, requests = [], downloads = []\<rparr>"

definition ex_split :: state where
  "ex_split =
     \<lparr>currentTool = Some split_tool, pickedFiles = [ex_A],
      fileList = [FileItem 0 False 0], organizePages = [],
      statusEl = ([], ''status-message''), filesView = True, draggedElement = None,
      draggedIndex = None, nextElem = 1, requests = [], downloads = []\<rparr>"

text \<open>The organize tool right after document B was added and expanded.\<close>

definition ex_staged_B :: state where
  "ex_staged_B = (case handleAddFiles ex_js [ex_B] (setTool ''reorder'' initial) of
                    Inl e \<Rightarrow> initial | Inr st \<Rightarrow> st)"

text \<open>
  The organize tool with the three first pages of A in their natural order, and a layout
  in which the node numbered \<open>e\<close> is 100 high and starts at height \<open>100 * e\<close>: the
  midpoints of the three pages are at 50, 150 and 250.
\<close>

definition ex_pages :: state where
  "ex_pages =
     ex_organize\<lparr>fileList := [PageItem 0 False 0 1 True, PageItem 1 False 0 2 True,
                               PageItem 2 False 0 3 True]\<rparr>"

definition ex_box :: layout where
  "ex_box e = (100 * real e, 100)"

text \<open>The layout once node 0 has moved behind nodes 1 and 2: they start at 0 and 100,
  node 0 at 200.\<close>

definition ex_box2 :: layout where
  "ex_box2 e = (if e = 0 then 200 else 100 * (real e - 1), 100)"

text \<open>
  The organize tool after the files X, A and B were added in one batch, X being a file
  that \<open>pdfjsLib\<close> cannot load, and X was then removed with the button of its item.
\<close>

definition ex_stale :: state where
  "ex_stale = (case handleAddFiles ex_js [ex_X, ex_A, ex_B] (setTool ''reorder'' initial) of
                 Inl e \<Rightarrow> initial | Inr st \<Rightarrow> removeFile ex_js 0 st)"


definition ex_C :: file_obj where
  "ex_C = \<lparr>fname = ''c.pdf'', ftype = ''application/pdf'', fsize = 60, fpages = [30]\<rparr>"

definition ex_js_norender :: pdfjs where
  "ex_js_norender f =
     (if length (fpages f) = 1 then Loaded [RenderFails] else ex_js f)"

definition ex_unrendered :: state where
  "ex_unrendered =
     (case handleAddFiles ex_js_norender [ex_B, ex_C] (setTool ''reorder'' initial) of
        Inl e \<Rightarrow> initial | Inr st \<Rightarrow> st)"

text \<open>The organize tool as \<open>handleAddFiles\<close> returns from adding A and B: both expansions
  started, none resumed.\<close>

definition ex_started :: "state \<times> task list" where
  "ex_started =
     (case handleAddFiles_async [ex_A, ex_B] (setTool ''reorder'' initial, []) of
        Inl e \<Rightarrow> (initial, [])
      | Inr c \<Rightarrow> c)"

section \<open>Properties of the reconstruction\<close>

lemma extract_loop_frame:
  "extract_loop svc bs acc st = (r, st') \<Longrightarrow> st' = st\<lparr>requests := requests st'\<rparr>"
proof (induction bs arbitrary: acc st)
  case Nil
  then show ?case by simp
next
  case (Cons b bs)
  then show ?case
    by (auto simp: Let_def split: response.splits) fastforce
qed

lemma extract_loop_prefix:
  "replies svc (requests st) pre = map Ok blobs \<Longrightarrow>
   extract_loop svc (pre @ rest) acc st =
     extract_loop svc rest (acc @ blobs) (st\<lparr>requests := requests st @ map batch_request pre\<rparr>)"
proof (induction pre arbitrary: acc st blobs)
  case Nil
  then show ?case by simp
next
  case (Cons b pre)
  from Cons.prems obtain blob blobs' where
    blobs: "blobs = blob # blobs'" and
    hd: "svc (requests st) (batch_request b) = Ok blob" and
    tl: "replies svc (requests st @ [batch_request b]) pre = map Ok blobs'"
    by (cases blobs) auto
  let ?st = "st\<lparr>requests := requests st @ [batch_request b]\<rparr>"
  have "extract_loop svc ((b # pre) @ rest) acc st = extract_loop svc (pre @ rest) (acc @ [blob]) ?st"
    using hd by (simp add: batch_request_def)
  also have "\<dots> = extract_loop svc rest ((acc @ [blob]) @ blobs')
                     (?st\<lparr>requests := requests ?st @ map batch_request pre\<rparr>)"
    using tl by (intro Cons.IH) simp
  finally show ?case by (simp add: blobs)
qed

lemma extract_loop_all_ok:
  "replies svc (requests st) bs = map Ok blobs \<Longrightarrow>
   extract_loop svc bs acc st =
     (Inr (acc @ blobs), st\<lparr>requests := requests st @ map batch_request bs\<rparr>)"
  using extract_loop_prefix [of svc st bs blobs "[]" acc] by simp

lemma extract_loop_fails:
  assumes "replies svc (requests st) pre = map Ok blobs"
    and "svc (requests st @ map batch_request pre) (batch_request b) = NotOk t"
  shows "extract_loop svc (pre @ b # post) acc st =
     (Inl (Error (if t = [] then ''Failed to extract pages'' else t)),
      st\<lparr>requests := requests st @ map batch_request (pre @ [b])\<rparr>)"
  using assms by (simp add: extract_loop_prefix batch_request_def)

lemma forEach_nonempty:
  "forEach_batches ops bs its = Inr bs' \<Longrightarrow> its \<noteq> [] \<Longrightarrow> ops \<noteq> []"
  by (cases its) (auto simp: batch_step_def split: item.splits option.splits sum.splits)

lemma selected_are_pages: "x \<in> set (selectedPageItems st) \<Longrightarrow> is_page_item x"
  by (cases x) (simp_all add: selectedPageItems_def)

lemma forEach_runs:
  "list_all (registered ops) its \<Longrightarrow>
   \<exists>bs'. forEach_batches ops (bs @ [b]) its = Inr bs' \<and>
     map (\<lambda>b. (fileIndex b, pages b)) bs' =
       map (\<lambda>b. (fileIndex b, pages b)) bs @
       (fileIndex b, pages b @ map snd (takeWhile (\<lambda>k. fst k = fileIndex b) (page_keys its))) #
       spec_runs (dropWhile (\<lambda>k. fst k = fileIndex b) (page_keys its))"
proof (induction its arbitrary: bs b)
  case Nil
  then show ?case by (simp add: page_keys_def)
next
  case (Cons it its)
  from Cons.prems obtain e d fi pn c p where
    it: "it = PageItem e d fi pn c" and
    p: "List.find (\<lambda>p. element_fileIndex p = fi) ops = Some p" and
    rest: "list_all (registered ops) its"
    by (cases it) auto
  have keys: "page_keys (it # its) = (fi, pn) # page_keys its"
    by (simp add: page_keys_def it)
  show ?case
  proof (cases "fileIndex b = fi")
    case True
    let ?b = "b\<lparr>pages := pages b @ [pn]\<rparr>"
    have step: "batch_step ops (bs @ [b]) it = Inr (bs @ [?b])"
      using True p by (simp add: batch_step_def it)
    from Cons.IH [OF rest, of bs ?b] obtain bs' where
      "forEach_batches ops (bs @ [?b]) its = Inr bs'" and
      "map (\<lambda>b. (fileIndex b, pages b)) bs' =
         map (\<lambda>b. (fileIndex b, pages b)) bs @
         (fileIndex ?b, pages ?b @ map snd (takeWhile (\<lambda>k. fst k = fileIndex ?b) (page_keys its))) #
         spec_runs (dropWhile (\<lambda>k. fst k = fileIndex ?b) (page_keys its))"
      by blast
    then show ?thesis using True step by (simp add: keys)
  next
    case False
    let ?n = "\<lparr>fileIndex = fi, bfile = ofile p, pages = [pn]\<rparr>"
    have step: "batch_step ops (bs @ [b]) it = Inr ((bs @ [b]) @ [?n])"
      using False p by (simp add: batch_step_def it)
    from Cons.IH [OF rest, of "bs @ [b]" ?n] obtain bs' where
      "forEach_batches ops ((bs @ [b]) @ [?n]) its = Inr bs'" and
      "map (\<lambda>b. (fileIndex b, pages b)) bs' =
         map (\<lambda>b. (fileIndex b, pages b)) (bs @ [b]) @
         (fileIndex ?n, pages ?n @ map snd (takeWhile (\<lambda>k. fst k = fileIndex ?n) (page_keys its))) #
         spec_runs (dropWhile (\<lambda>k. fst k = fileIndex ?n) (page_keys its))"
      by blast
    then show ?thesis using False step by (simp add: keys)
  qed
qed

lemma forEach_files:
  "forEach_batches ops bs its = Inr bs' \<Longrightarrow>
   list_all (\<lambda>b. map_option ofile (List.find (\<lambda>p. element_fileIndex p = fileIndex b) ops) = Some (bfile b)) bs \<Longrightarrow>
   list_all (\<lambda>b. map_option ofile (List.find (\<lambda>p. element_fileIndex p = fileIndex b) ops) = Some (bfile b)) bs'"
proof (induction its arbitrary: bs)
  case Nil
  then show ?case by simp
next
  case (Cons it its)
  from Cons.prems(1) obtain bs1 where
    step: "batch_step ops bs it = Inr bs1" and rest: "forEach_batches ops bs1 its = Inr bs'"
    by (auto split: sum.splits)
  have "list_all (\<lambda>b. map_option ofile (List.find (\<lambda>p. element_fileIndex p = fileIndex b) ops) = Some (bfile b)) bs1"
  proof (cases "bs = []")
    case True
    then show ?thesis using step
      by (auto simp: batch_step_def split: item.splits option.splits)
  next
    case False
    then have "bs = butlast bs @ [last bs]" by simp
    then have "list_all (\<lambda>b. map_option ofile (List.find (\<lambda>p. element_fileIndex p = fileIndex b) ops) = Some (bfile b)) (butlast bs @ [last bs])"
      using Cons.prems(2) by simp
    then show ?thesis using step Cons.prems(2)
      by (auto simp: batch_step_def split: item.splits option.splits if_splits)
  qed
  then show ?case using Cons.IH [OF rest] by blast
qed

lemma plan_runs:
  assumes "list_all (registered (organizePages st)) (selectedPageItems st)"
  shows "\<exists>bs. forEach_batches (organizePages st) [] (selectedPageItems st) = Inr bs \<and>
     map (\<lambda>b. (fileIndex b, pages b)) bs = spec_runs (page_keys (selectedPageItems st)) \<and>
     list_all (\<lambda>b. map_option ofile (List.find (\<lambda>p. element_fileIndex p = fileIndex b) (organizePages st)) = Some (bfile b)) bs"
proof (cases "selectedPageItems st")
  case Nil
  then show ?thesis by (simp add: page_keys_def)
next
  case (Cons it its)
  from assms Cons obtain e d fi pn c p where
    it: "it = PageItem e d fi pn c" and
    p: "List.find (\<lambda>p. element_fileIndex p = fi) (organizePages st) = Some p" and
    rest: "list_all (registered (organizePages st)) its"
    by (cases it) auto
  let ?n = "\<lparr>fileIndex = fi, bfile = ofile p, pages = [pn]\<rparr>"
  have step: "batch_step (organizePages st) [] it = Inr [?n]"
    using p by (simp add: batch_step_def it)
  from forEach_runs [OF rest, of "[]" ?n] obtain bs where
    run: "forEach_batches (organizePages st) [?n] its = Inr bs" and
    view: "map (\<lambda>b. (fileIndex b, pages b)) bs =
       (fi, pn # map snd (takeWhile (\<lambda>k. fst k = fi) (page_keys its))) #
       spec_runs (dropWhile (\<lambda>k. fst k = fi) (page_keys its))"
    by auto
  have all: "forEach_batches (organizePages st) [] (selectedPageItems st) = Inr bs"
    using step run Cons by simp
  have "page_keys (selectedPageItems st) = (fi, pn) # page_keys its"
    by (simp add: Cons it page_keys_def)
  then have "map (\<lambda>b. (fileIndex b, pages b)) bs = spec_runs (page_keys (selectedPageItems st))"
    using view by simp
  moreover have "list_all (\<lambda>b. map_option ofile (List.find (\<lambda>p. element_fileIndex p = fileIndex b) (organizePages st)) = Some (bfile b)) bs"
    using forEach_files [OF all] by simp
  ultimately show ?thesis using all by blast
qed

text \<open>
  X5. For every sequence of included page items whose \<open>fileIndex\<close> has an entry in
  \<open>organizePages\<close>, the batches that \<open>runOrganize\<close> builds are the maximal contiguous runs
  of items with the same \<open>fileIndex\<close>, in display order, each with its page numbers in
  display order and with the file of the first entry of \<open>organizePages\<close> under that index.
\<close>

theorem batches_are_maximal_runs:
  assumes "list_all (registered (organizePages st)) (selectedPageItems st)"
  shows "\<exists>bs. forEach_batches (organizePages st) [] (selectedPageItems st) = Inr bs \<and>
     map (\<lambda>b. (fileIndex b, pages b)) bs = spec_runs (page_keys (selectedPageItems st)) \<and>
     list_all (\<lambda>b. map_option ofile (List.find (\<lambda>p. element_fileIndex p = fileIndex b) (organizePages st)) = Some (bfile b)) bs"
  using assms by (rule plan_runs)

lemmas ex_defs =
  ex_organize_def ex_single_def ex_none_def ex_entries_def reorder_tool_def
  selectedPageItems_def batch_step_def page_keys_def

lemma ex_plan:
  "forEach_batches (organizePages ex_organize) [] (selectedPageItems ex_organize) =
     Inr [\<lparr>fileIndex = 0, bfile = ex_A, pages = [1, 3]\<rparr>,
          \<lparr>fileIndex = 1, bfile = ex_B, pages = [2]\<rparr>,
          \<lparr>fileIndex = 0, bfile = ex_A, pages = [5]\<rparr>]"
  by (simp add: ex_defs)

theorem batches_are_maximal_runs_witness:
  "list_all (registered (organizePages ex_organize)) (selectedPageItems ex_organize) \<and>
   page_keys (selectedPageItems ex_organize) = [(0, 1), (0, 3), (1, 2), (0, 5)] \<and>
   (\<exists>bs. forEach_batches (organizePages ex_organize) [] (selectedPageItems ex_organize) = Inr bs \<and>
      map (\<lambda>b. (fileIndex b, pages b)) bs = [(0, [1, 3]), (1, [2]), (0, [5])] \<and>
      map bfile bs = [ex_A, ex_B, ex_A])"
proof -
  have reg: "list_all (registered (organizePages ex_organize)) (selectedPageItems ex_organize)"
    by (simp add: ex_defs)
  have keys: "page_keys (selectedPageItems ex_organize) = [(0, 1), (0, 3), (1, 2), (0, 5)]"
    by (simp add: ex_defs)
  from batches_are_maximal_runs [OF reg] obtain bs where
    run: "forEach_batches (organizePages ex_organize) [] (selectedPageItems ex_organize) = Inr bs" and
    view: "map (\<lambda>b. (fileIndex b, pages b)) bs = spec_runs (page_keys (selectedPageItems ex_organize))"
    by blast
  have v: "map (\<lambda>b. (fileIndex b, pages b)) bs = [(0, [1, 3]), (1, [2]), (0, [5])]"
    using view by (simp add: keys)
  have f: "map bfile bs = [ex_A, ex_B, ex_A]"
    using run unfolding ex_plan by auto
  show ?thesis
    by (intro conjI exI [where x = bs]) (fact reg keys run v f)+
qed

text \<open>
  C6. For every snapshot in which no item is marked included, \<open>runOrganize\<close> throws before
  it plans or requests anything: the state, with its requests and downloads, is
  unchanged. The message is the one for an empty selection, or, when \<open>organizePages\<close>
  holds no page at all, the one asking for files.
\<close>

theorem empty_selection_blocks:
  assumes "list_all (\<lambda>i. \<not> is_selected_page i) (fileList st)"
  shows "runOrganize svc st =
    (Inl (Error (if organizePages st = [] then ''Please upload PDF files first''
                 else ''Please select at least one page to include'')), st)"
  using assms
  by (simp add: runOrganize_def selectedPageItems_def list_all_iff filter_empty_conv)

theorem empty_selection_blocks_witness:
  "list_all (\<lambda>i. \<not> is_selected_page i) (fileList ex_none) \<and>
   runOrganize spec_services ex_none =
     (Inl (Error ''Please select at least one page to include''), ex_none)"
proof -
  have h: "list_all (\<lambda>i. \<not> is_selected_page i) (fileList ex_none)"
    by (simp add: ex_defs)
  have "organizePages ex_none \<noteq> []"
    by (simp add: ex_defs)
  then show ?thesis
    using h empty_selection_blocks [OF h, of spec_services] by simp
qed

lemma plan_nonempty:
  assumes "forEach_batches ops [] its = Inr bs" and "bs \<noteq> []"
  shows "its \<noteq> [] \<and> ops \<noteq> []"
proof -
  from assms have "its \<noteq> []" by (cases its) auto
  with assms(1) show ?thesis using forEach_nonempty by blast
qed

text \<open>
  C3 (as amended). When the requests for the batches before \<open>b\<close> are answered \<open>ok\<close> and the
  request for \<open>b\<close> is answered with a failure carrying the text \<open>t\<close>, \<open>runOrganize\<close> throws
  an error whose message is \<open>t\<close>, or \<open>Failed to extract pages\<close> when \<open>t\<close> is empty. The
  requests issued are those of the batches up to \<open>b\<close> and no other: none for a later
  batch, no merge. Nothing is downloaded.
\<close>

theorem extraction_fails_fast:
  assumes "forEach_batches (organizePages st) [] (selectedPageItems st) = Inr (pre @ b # post)"
    and "replies svc (requests st) pre = map Ok blobs"
    and "svc (requests st @ map batch_request pre) (batch_request b) = NotOk t"
  shows "runOrganize svc st =
    (Inl (Error (if t = [] then ''Failed to extract pages'' else t)),
     st\<lparr>requests := requests st @ map batch_request (pre @ [b])\<rparr>)"
proof -
  from plan_nonempty [OF assms(1)] have "selectedPageItems st \<noteq> []" "organizePages st \<noteq> []"
    by simp_all
  then show ?thesis
    using assms(1) extract_loop_fails [OF assms(2,3), of post "[]"]
    by (simp add: runOrganize_def)
qed

lemma ex_replies_first:
  "replies (fail_at 1 ''boom'') (requests ex_organize) [\<lparr>fileIndex = 0, bfile = ex_A, pages = [1, 3]\<rparr>] =
     map Ok [[10, 12]]"
  by (simp add: fail_at_def spec_services_def PageExtractionService_def batch_request_def
      ex_organize_def ex_A_def)

theorem extraction_fails_fast_witness:
  "forEach_batches (organizePages ex_organize) [] (selectedPageItems ex_organize) =
     Inr ([\<lparr>fileIndex = 0, bfile = ex_A, pages = [1, 3]\<rparr>] @
          \<lparr>fileIndex = 1, bfile = ex_B, pages = [2]\<rparr> #
          [\<lparr>fileIndex = 0, bfile = ex_A, pages = [5]\<rparr>]) \<and>
   runOrganize (fail_at 1 ''boom'') ex_organize =
     (Inl (Error ''boom''), ex_organize\<lparr>requests := [Reorder ex_A [1, 3], Reorder ex_B [2]]\<rparr>)"
proof -
  have plan: "forEach_batches (organizePages ex_organize) [] (selectedPageItems ex_organize) =
     Inr ([\<lparr>fileIndex = 0, bfile = ex_A, pages = [1, 3]\<rparr>] @
          \<lparr>fileIndex = 1, bfile = ex_B, pages = [2]\<rparr> #
          [\<lparr>fileIndex = 0, bfile = ex_A, pages = [5]\<rparr>])"
    using ex_plan by simp
  have fails: "fail_at 1 ''boom''
      (requests ex_organize @ map batch_request [\<lparr>fileIndex = 0, bfile = ex_A, pages = [1, 3]\<rparr>])
      (batch_request \<lparr>fileIndex = 1, bfile = ex_B, pages = [2]\<rparr>) = NotOk ''boom''"
    by (simp add: fail_at_def ex_organize_def)
  have rq: "requests ex_organize = []"
    by (simp add: ex_organize_def)
  show ?thesis
    using plan extraction_fails_fast [OF plan ex_replies_first fails]
    by (simp add: batch_request_def rq)
qed

text \<open>
  C3 as stated fails: the error that \<open>runOrganize\<close> throws carries the text of the
  response and nothing else. A failure of the first batch and a failure of the second
  one give the same error, after one and after two requests.
\<close>

theorem extraction_error_has_no_index:
  "fst (runOrganize (fail_at 0 ''boom'') ex_organize) = Inl (Error ''boom'') \<and>
   fst (runOrganize (fail_at 1 ''boom'') ex_organize) = Inl (Error ''boom'') \<and>
   requests (snd (runOrganize (fail_at 0 ''boom'') ex_organize)) = [Reorder ex_A [1, 3]] \<and>
   requests (snd (runOrganize (fail_at 1 ''boom'') ex_organize)) =
     [Reorder ex_A [1, 3], Reorder ex_B [2]]"
proof -
  have sel: "selectedPageItems ex_organize \<noteq> []" "organizePages ex_organize \<noteq> []"
    by (simp_all add: ex_defs)
  have rq: "requests ex_organize = []"
    by (simp add: ex_organize_def)
  have r0: "runOrganize (fail_at 0 ''boom'') ex_organize =
      (Inl (Error ''boom''), ex_organize\<lparr>requests := [Reorder ex_A [1, 3]]\<rparr>)"
    using sel by (simp add: runOrganize_def ex_plan fail_at_def rq)
  have r1: "runOrganize (fail_at 1 ''boom'') ex_organize =
      (Inl (Error ''boom''), ex_organize\<lparr>requests := [Reorder ex_A [1, 3], Reorder ex_B [2]]\<rparr>)"
    using sel
    by (simp add: runOrganize_def ex_plan fail_at_def rq spec_services_def
        PageExtractionService_def ex_A_def)
  show ?thesis unfolding r0 r1 by simp
qed


lemma extract_loop_staging:
  "extract_loop svc bs acc st = (r, st') \<Longrightarrow>
     staging st' = staging st \<and> currentTool st' = currentTool st \<and> downloads st' = downloads st"
proof (induction bs arbitrary: acc st)
  case Nil
  then show ?case by simp
next
  case (Cons b bs)
  show ?case
  proof (cases "svc (requests st) (Reorder (bfile b) (pages b))")
    case Rejected
    then show ?thesis using Cons.prems by (auto simp: staging_def)
  next
    case (NotOk t)
    then show ?thesis using Cons.prems by (auto simp: staging_def)
  next
    case (Ok blob)
    then have "extract_loop svc bs (acc @ [blob])
        (st\<lparr>requests := requests st @ [Reorder (bfile b) (pages b)]\<rparr>) = (r, st')"
      using Cons.prems by simp
    from Cons.IH [OF this] show ?thesis by (simp add: staging_def)
  qed
qed

lemma runOrganize_staging:
  "staging (snd (runOrganize svc st)) = staging st \<and>
   currentTool (snd (runOrganize svc st)) = currentTool st"
proof (cases "forEach_batches (organizePages st) [] (selectedPageItems st)")
  case (Inl e)
  then show ?thesis by (simp add: runOrganize_def)
next
  case (Inr bs)
  obtain r st1 where loop: "extract_loop svc bs [] st = (r, st1)"
    by (cases "extract_loop svc bs [] st")
  from extract_loop_staging [OF loop] have
    st1: "staging st1 = staging st" "currentTool st1 = currentTool st" by simp_all
  show ?thesis
  proof (cases r)
    case (Inl e)
    then show ?thesis using Inr loop st1 by (simp add: runOrganize_def)
  next
    case ok: (Inr extracted)
    show ?thesis
    proof (cases "svc (requests st1) (Merge extracted)")
      case Rejected
      then show ?thesis using Inr loop ok st1
        by (simp add: runOrganize_def downloadBlob_def staging_def)
    next
      case (NotOk t)
      then show ?thesis using Inr loop ok st1
        by (simp add: runOrganize_def downloadBlob_def staging_def)
    next
      case (Ok blob)
      then show ?thesis using Inr loop ok st1
        by (simp add: runOrganize_def downloadBlob_def staging_def)
    qed
  qed
qed

lemma runOrganize_failure_downloads:
  "fst (runOrganize svc st) = Inl e \<Longrightarrow> downloads (snd (runOrganize svc st)) = downloads st"
proof (cases "forEach_batches (organizePages st) [] (selectedPageItems st)")
  case (Inl e')
  then show ?thesis by (simp add: runOrganize_def)
next
  case (Inr bs)
  assume fails: "fst (runOrganize svc st) = Inl e"
  obtain r st1 where loop: "extract_loop svc bs [] st = (r, st1)"
    by (cases "extract_loop svc bs [] st")
  from extract_loop_staging [OF loop] have st1: "downloads st1 = downloads st" by simp
  show ?thesis
  proof (cases r)
    case (Inl e')
    then show ?thesis using Inr loop st1 by (simp add: runOrganize_def)
  next
    case ok: (Inr extracted)
    show ?thesis
    proof (cases "svc (requests st1) (Merge extracted)")
      case Rejected
      then show ?thesis using Inr loop ok st1 fails
        by (simp add: runOrganize_def downloadBlob_def split: if_splits)
    next
      case (NotOk t)
      then show ?thesis using Inr loop ok st1 fails
        by (simp add: runOrganize_def downloadBlob_def split: if_splits)
    next
      case (Ok blob)
      then show ?thesis using Inr loop ok st1 fails
        by (simp add: runOrganize_def downloadBlob_def split: if_splits)
    qed
  qed
qed

text \<open>
  C7. When \<open>runOrganize\<close> throws, whatever the remote side answered, the picked files, the
  list of items with its order and its checkboxes, \<open>organizePages\<close> and the current tool
  are as they were before the call, and nothing was downloaded; so the same snapshot
  is planned again on the next run.
\<close>

theorem failure_leaves_staging:
  assumes "fst (runOrganize svc st) = Inl e"
  shows "staging (snd (runOrganize svc st)) = staging st \<and>
     currentTool (snd (runOrganize svc st)) = currentTool st \<and>
     downloads (snd (runOrganize svc st)) = downloads st \<and>
     forEach_batches (organizePages (snd (runOrganize svc st))) []
         (selectedPageItems (snd (runOrganize svc st))) =
       forEach_batches (organizePages st) [] (selectedPageItems st)"
proof -
  have s: "staging (snd (runOrganize svc st)) = staging st"
    using runOrganize_staging by blast
  then have "organizePages (snd (runOrganize svc st)) = organizePages st"
    "selectedPageItems (snd (runOrganize svc st)) = selectedPageItems st"
    by (simp_all add: staging_def selectedPageItems_def)
  then show ?thesis
    using s runOrganize_staging runOrganize_failure_downloads [OF assms] by simp
qed

lemma ex_merge_fails:
  "runOrganize (fail_at 3 ''merge down'') ex_organize =
     (Inl (Error ''merge down''),
      ex_organize\<lparr>requests := [Reorder ex_A [1, 3], Reorder ex_B [2], Reorder ex_A [5],
                                Merge [[10, 12], [21], [14]]]\<rparr>)"
proof -
  have sel: "selectedPageItems ex_organize \<noteq> []" "organizePages ex_organize \<noteq> []"
    by (simp_all add: ex_defs)
  have rq: "requests ex_organize = []"
    by (simp add: ex_organize_def)
  show ?thesis
    using sel
    by (simp add: runOrganize_def ex_plan fail_at_def rq spec_services_def
        PageExtractionService_def ex_A_def ex_B_def)
qed

theorem failure_leaves_staging_witness:
  "fst (runOrganize (fail_at 3 ''merge down'') ex_organize) = Inl (Error ''merge down'') \<and>
   staging (snd (runOrganize (fail_at 3 ''merge down'') ex_organize)) = staging ex_organize \<and>
   downloads (snd (runOrganize (fail_at 3 ''merge down'') ex_organize)) = []"
proof -
  have h: "fst (runOrganize (fail_at 3 ''merge down'') ex_organize) = Inl (Error ''merge down'')"
    by (simp add: ex_merge_fails)
  have "downloads ex_organize = []"
    by (simp add: ex_organize_def)
  then show ?thesis
    using h failure_leaves_staging [OF h] by simp
qed

lemma single_run:
  assumes "fst ` set ks = {fi}"
  shows "\<exists>pn rest. ks = (fi, pn) # rest \<and> spec_runs ks = [(fi, map snd ks)]"
proof -
  from assms have all: "\<forall>k \<in> set ks. fst k = fi" by auto
  from assms obtain k rest where ks: "ks = k # rest" by (cases ks) auto
  obtain d pn where k: "k = (d, pn)" by (cases k)
  from all ks k have d: "d = fi" by simp
  from all ks have rest: "\<forall>k \<in> set rest. fst k = fi" by simp
  then have tw: "takeWhile (\<lambda>x. fst x = fi) rest = rest"
    and dw: "dropWhile (\<lambda>x. fst x = fi) rest = []"
    by simp_all
  show ?thesis by (simp add: ks k d tw dw)
qed

lemma selected_registered:
  assumes "fst ` set (page_keys (selectedPageItems st)) = {fi}"
    and "List.find (\<lambda>p. element_fileIndex p = fi) (organizePages st) = Some p"
  shows "list_all (registered (organizePages st)) (selectedPageItems st)"
  unfolding list_all_iff
proof (rule ballI)
  fix it assume mem: "it \<in> set (selectedPageItems st)"
  then have "is_page_item it" by (rule selected_are_pages)
  then obtain e d fi' pn c where it: "it = PageItem e d fi' pn c"
    by (cases it) simp_all
  then have "(fi', pn) \<in> set (page_keys (selectedPageItems st))"
    using mem by (force simp: page_keys_def)
  then have "fi' \<in> fst ` set (page_keys (selectedPageItems st))" by force
  with assms(1) have "fi' = fi" by simp
  then show "registered (organizePages st) it" using assms(2) it by simp
qed

text \<open>
  C5. When all included items have the same document index, \<open>runOrganize\<close> sends one
  request, the extraction of their pages in display order from the file registered for
  that index, and no merge request; when that request is answered \<open>ok\<close>, the blob of
  the response is downloaded as it is.
\<close>

theorem single_batch_shortcut:
  assumes "fst ` set (page_keys (selectedPageItems st)) = {fi}"
    and "List.find (\<lambda>p. element_fileIndex p = fi) (organizePages st) = Some p"
    and "svc (requests st) (Reorder (ofile p) (map snd (page_keys (selectedPageItems st)))) = Ok blob"
  shows "runOrganize svc st =
    (Inr (),
     st\<lparr>requests := requests st @ [Reorder (ofile p) (map snd (page_keys (selectedPageItems st)))],
        downloads := downloads st @ [(blob, ''organized.pdf'')]\<rparr>)"
proof -
  let ?ks = "page_keys (selectedPageItems st)"
  from single_run [OF assms(1)] obtain pn rest where
    ks: "?ks = (fi, pn) # rest" and runs: "spec_runs ?ks = [(fi, map snd ?ks)]"
    by blast
  from plan_runs [OF selected_registered [OF assms(1,2)]] obtain bs where
    plan: "forEach_batches (organizePages st) [] (selectedPageItems st) = Inr bs" and
    view: "map (\<lambda>b. (fileIndex b, pages b)) bs = spec_runs ?ks" and
    files: "list_all (\<lambda>b. map_option ofile (List.find (\<lambda>p. element_fileIndex p = fileIndex b)
              (organizePages st)) = Some (bfile b)) bs"
    by blast
  from view runs obtain b where bs: "bs = [b]" and b: "fileIndex b = fi" "pages b = map snd ?ks"
    by (cases bs) auto
  from files bs b assms(2) have bf: "bfile b = ofile p" by simp
  from ks have "selectedPageItems st \<noteq> []" by (auto simp: page_keys_def)
  moreover from assms(2) have "organizePages st \<noteq> []" by auto
  ultimately show ?thesis
    using plan bs b bf assms(3)
    by (simp add: runOrganize_def downloadBlob_def)
qed

theorem single_batch_shortcut_witness:
  "fst ` set (page_keys (selectedPageItems ex_single)) = {0} \<and>
   runOrganize spec_services ex_single =
     (Inr (), ex_single\<lparr>requests := [Reorder ex_A [2, 1]],
                         downloads := [([11, 10], ''organized.pdf'')]\<rparr>)"
proof -
  have keys: "page_keys (selectedPageItems ex_single) = [(0, 2), (0, 1)]"
    by (simp add: ex_defs)
  have one: "fst ` set (page_keys (selectedPageItems ex_single)) = {0}"
    by (simp add: keys)
  have p: "List.find (\<lambda>p. element_fileIndex p = 0) (organizePages ex_single) =
      Some \<lparr>element = 0, element_fileIndex = 0, ofile = ex_A, pageNum = 1, selected = True\<rparr>"
    by (simp add: ex_defs)
  have ok: "spec_services (requests ex_single)
      (Reorder (ofile \<lparr>element = 0, element_fileIndex = 0, ofile = ex_A, pageNum = 1, selected = True\<rparr>)
         (map snd (page_keys (selectedPageItems ex_single)))) = Ok [11, 10]"
    by (simp add: keys spec_services_def PageExtractionService_def ex_A_def)
  have "requests ex_single = []" "downloads ex_single = []"
    by (simp_all add: ex_defs)
  then show ?thesis
    using one single_batch_shortcut [of ex_single 0 _ spec_services "[11, 10]", OF one p ok]
    by (simp add: keys)
qed

section \<open>Properties of the intake\<close>

lemma replace_star_nonempty: "s \<noteq> [] \<Longrightarrow> replace_star s \<noteq> []"
  by (cases s) auto

lemma tool_facts:
  assumes "(tname t, accept t, multiple t) \<in> set getTools"
  shows "accept t \<noteq> []" and "\<not> multiple t \<Longrightarrow> tname t \<noteq> ''reorder''"
  using assms by (auto simp: getTools_def)


lemma agree_refl: "agree st st"
  by (simp add: agree_def)



lemma agree_tool: "agree st st' \<Longrightarrow> currentTool st = currentTool st'"
  by (simp add: agree_def)

lemma addFileItem_tool: "currentTool (addFileItem js f idx st) = currentTool st"
proof -
  have "currentTool (addPages f fi pn outcomes s) = currentTool s" for fi pn outcomes s
  proof (induction outcomes arbitrary: s pn)
    case Nil
    then show ?case by simp
  next
    case (Cons outcome outcomes)
    have "currentTool (addPdfPageItem outcome f fi pn s) = currentTool s"
      by (cases outcome) (simp_all add: addPdfPageItem_def)
    then show ?case by (simp add: Cons.IH)
  qed
  then show ?thesis
    by (simp add: addFileItem_def addPdfAsPages_def addRegularFileItem_def
        split: option.splits pdf_load.splits)
qed

lemma addFileItem_picked: "pickedFiles (addFileItem js f idx st) = pickedFiles st"
proof -
  have "pickedFiles (addPages f fi pn outcomes s) = pickedFiles s" for fi pn outcomes s
  proof (induction outcomes arbitrary: s pn)
    case Nil
    then show ?case by simp
  next
    case (Cons outcome outcomes)
    have "pickedFiles (addPdfPageItem outcome f fi pn s) = pickedFiles s"
      by (cases outcome) (simp_all add: addPdfPageItem_def)
    then show ?case by (simp add: Cons.IH)
  qed
  then show ?thesis
    by (simp add: addFileItem_def addPdfAsPages_def addRegularFileItem_def
        split: option.splits pdf_load.splits)
qed

text \<open>The three branches of the intake loop.\<close>

lemma intake_reject:
  assumes "currentTool st = Some t" and "pat \<noteq> []" and "\<not> type_match (ftype f) pat"
  shows "intake js pat (f # fs) st =
     intake js pat fs
       (showStatus (''File \"'' @ fname f @ ''\" is not accepted for this tool'') ''error'' st)"
  using assms by simp

lemma intake_replace:
  assumes "currentTool st = Some t" and "pat = [] \<or> type_match (ftype f) pat"
    and "\<not> multiple t" and "pickedFiles st \<noteq> []"
  shows "intake js pat (f # fs) st =
     Inr (addFileItem js f 0 (st\<lparr>pickedFiles := [f], fileList := []\<rparr>))"
  using assms by auto




lemma addFileItem_statusEl: "statusEl (addFileItem js f idx st) = statusEl st"
proof -
  have "statusEl (addPages f fi pn outcomes s) = statusEl s" for fi pn outcomes s
  proof (induction outcomes arbitrary: s pn)
    case Nil
    then show ?case by simp
  next
    case (Cons outcome outcomes)
    have "statusEl (addPdfPageItem outcome f fi pn s) = statusEl s"
      by (cases outcome) (simp_all add: addPdfPageItem_def)
    then show ?case by (simp add: Cons.IH)
  qed
  then show ?thesis
    by (simp add: addFileItem_def addPdfAsPages_def addRegularFileItem_def
        split: option.splits pdf_load.splits)
qed










lemma intake_rejected_prefix:
  assumes "currentTool st = Some t" and "pat \<noteq> []"
    and "list_all (\<lambda>g. \<not> type_match (ftype g) pat) pre"
  shows "\<exists>st'. agree st st' \<and> (\<forall>fs. intake js pat (pre @ fs) st = intake js pat fs st')"
  using assms(1,3)
proof (induction pre arbitrary: st)
  case Nil
  then show ?case using agree_refl by auto
next
  case (Cons g pre)
  let ?s1 = "showStatus (''File \"'' @ fname g @ ''\" is not accepted for this tool'') ''error'' st"
  have rej: "\<not> type_match (ftype g) pat" and rest: "list_all (\<lambda>g. \<not> type_match (ftype g) pat) pre"
    using Cons.prems(2) by simp_all
  have t1: "currentTool ?s1 = Some t"
    using Cons.prems(1) by (simp add: showStatus_def)
  have ag: "agree st ?s1"
    by (simp add: agree_def showStatus_def)
  from Cons.IH [OF t1 rest] obtain st' where
    st': "agree ?s1 st'" "\<And>fs. intake js pat (pre @ fs) ?s1 = intake js pat fs st'"
    by blast
  have "intake js pat ((g # pre) @ fs) st = intake js pat fs st'" for fs
    using intake_reject [OF Cons.prems(1) assms(2) rej, of js "pre @ fs"] st'(2) by simp
  moreover have "agree st st'"
    using ag st'(1) by (simp add: agree_def)
  ultimately show ?case by blast
qed

text \<open>
  C10. In a tool of \<open>getTools\<close> without \<open>multiple\<close>, with a file already staged, a batch
  whose first accepted file is \<open>f\<close> leaves \<open>f\<close> as the only picked file and its item as
  the only item of the list; the files after \<open>f\<close> have no effect at all, on the staging
  or on the status line: the result is that of the batch cut after \<open>f\<close>.
\<close>

theorem single_mode_replaces_and_stops:
  assumes "(tname t, accept t, multiple t) \<in> set getTools"
    and "currentTool st = Some t" and "\<not> multiple t" and "pickedFiles st \<noteq> []"
    and "list_all (\<lambda>g. \<not> type_match (ftype g) (replace_star (accept t))) pre"
    and "type_match (ftype f) (replace_star (accept t))"
  shows "\<exists>st'. handleAddFiles js (pre @ f # rest) st = Inr st' \<and>
     handleAddFiles js (pre @ [f]) st = Inr st' \<and>
     pickedFiles st' = [f] \<and> fileList st' = [FileItem (nextElem st) False 0] \<and>
     organizePages st' = organizePages st"
proof -
  let ?pat = "replace_star (accept t)"
  let ?s = "showFilesView (clearStatus st)"
  have pat: "?pat \<noteq> []"
    using tool_facts(1) [OF assms(1)] by (rule replace_star_nonempty)
  have name: "tname t \<noteq> ''reorder''"
    using tool_facts(2) [OF assms(1)] assms(3) by simp
  have ts: "currentTool ?s = Some t"
    using assms(2) by (simp add: clearStatus_def showFilesView_def)
  have ags: "agree st ?s"
    by (simp add: agree_def clearStatus_def showFilesView_def)
  from intake_rejected_prefix [OF ts pat assms(5), of js] obtain s1 where
    s1: "agree ?s s1" "\<And>fs. intake js ?pat (pre @ fs) ?s = intake js ?pat fs s1"
    by blast
  have a1: "agree st s1" using ags s1(1) by (simp add: agree_def)
  then have t1: "currentTool s1 = Some t" and p1: "pickedFiles s1 \<noteq> []"
    using assms(2,4) by (simp_all add: agree_def)
  let ?st' = "addFileItem js f 0 (s1\<lparr>pickedFiles := [f], fileList := []\<rparr>)"
  have rep: "intake js ?pat (f # fs) s1 = Inr ?st'" for fs
    using assms(6) by (intro intake_replace [OF t1 _ assms(3) p1]) simp
  have hs: "handleAddFiles js (pre @ f # fs) st = Inr ?st'" for fs
    using assms(2) s1(2) [of "f # fs"] rep [of fs] by (simp add: handleAddFiles_def)
  have reg: "?st' = addRegularFileItem f 0 (s1\<lparr>pickedFiles := [f], fileList := []\<rparr>)"
    using t1 name by (simp add: addFileItem_def)
  have "pickedFiles ?st' = [f]" "fileList ?st' = [FileItem (nextElem st) False 0]"
    "organizePages ?st' = organizePages st"
    using a1 unfolding reg by (simp_all add: addRegularFileItem_def agree_def)
  then show ?thesis using hs [of rest] hs [of "[]"] by simp
qed

theorem single_mode_replaces_and_stops_witness:
  "(tname split_tool, accept split_tool, multiple split_tool) \<in> set getTools \<and>
   currentTool ex_split = Some split_tool \<and> pickedFiles ex_split = [ex_A] \<and>
   (\<exists>st'. handleAddFiles ex_js ([ex_img] @ ex_B # [ex_A, ex_img]) ex_split = Inr st' \<and>
      handleAddFiles ex_js ([ex_img] @ [ex_B]) ex_split = Inr st' \<and>
      pickedFiles st' = [ex_B] \<and> fileList st' = [FileItem 1 False 0])"
proof -
  have g: "(tname split_tool, accept split_tool, multiple split_tool) \<in> set getTools"
    by (simp add: split_tool_def getTools_def)
  have t: "currentTool ex_split = Some split_tool" and m: "\<not> multiple split_tool"
    and p: "pickedFiles ex_split \<noteq> []" and p': "pickedFiles ex_split = [ex_A]"
    and n: "nextElem ex_split = 1"
    by (simp_all add: ex_split_def split_tool_def)
  have r: "list_all (\<lambda>g. \<not> type_match (ftype g) (replace_star (accept split_tool))) [ex_img]"
    by (simp add: split_tool_def ex_img_def type_match_def)
  have a: "type_match (ftype ex_B) (replace_star (accept split_tool))"
    by (simp add: split_tool_def ex_B_def type_match_def)
  from single_mode_replaces_and_stops [OF g t m p r a, of ex_js "[ex_A, ex_img]"]
  show ?thesis using g t p' n by auto
qed

section \<open>Properties of the expansion into pages\<close>

lemma page_entries_append: "page_entries (xs @ ys) = page_entries xs @ page_entries ys"
  by (simp add: page_entries_def)

lemma addPages_entries:
  "page_entries (fileList (addPages f fi pn outcomes st)) =
     page_entries (fileList st) @
     map (\<lambda>n. (fi, n, True))
       (map snd (filter (\<lambda>x. fst x \<noteq> GetPageFails) (zip outcomes [pn..<pn + length outcomes])))"
proof (induction outcomes arbitrary: pn st)
  case Nil
  then show ?case by simp
next
  case (Cons outcome outcomes)
  have upt: "[pn..<pn + length (outcome # outcomes)] = pn # [Suc pn..<Suc pn + length outcomes]"
    using upt_conv_Cons [of pn "pn + Suc (length outcomes)"] by simp
  have one: "page_entries (fileList (addPdfPageItem outcome f fi pn st)) =
      page_entries (fileList st) @ (if outcome = GetPageFails then [] else [(fi, pn, True)])"
    by (cases outcome) (simp_all add: addPdfPageItem_def page_entries_def)
  show ?case
    unfolding upt by (simp add: Cons.IH one)
qed

lemma addPdfAsPages_entries:
  assumes "js f = Loaded outcomes"
  shows "page_entries (fileList (addPdfAsPages js f fi st)) =
     page_entries (fileList st) @ map (\<lambda>n. (fi, n, True)) (created_pages outcomes)"
  using assms addPages_entries [of f fi 1 outcomes st]
  by (simp add: addPdfAsPages_def created_pages_def)

text \<open>
  C4 (as amended). When the document loads, every call of \<open>addPdfAsPages\<close> appends, after
  the entries already in the list, one included page entry for each page of the
  document that \<open>getPage\<close> delivers, in page order; a second call for the same document
  appends the same entries once more.
\<close>

theorem expansion_appends_each_time:
  assumes "js f = Loaded outcomes"
  shows "page_entries (fileList (addPdfAsPages js f fi st)) =
       page_entries (fileList st) @ map (\<lambda>n. (fi, n, True)) (created_pages outcomes) \<and>
     page_entries (fileList (addPdfAsPages js f fi (addPdfAsPages js f fi st))) =
       page_entries (fileList st) @ map (\<lambda>n. (fi, n, True)) (created_pages outcomes) @
       map (\<lambda>n. (fi, n, True)) (created_pages outcomes)"
proof -
  have once: "page_entries (fileList (addPdfAsPages js f fi s)) =
       page_entries (fileList s) @ map (\<lambda>n. (fi, n, True)) (created_pages outcomes)" for s
    using assms by (rule addPdfAsPages_entries)
  show ?thesis by (simp add: once)
qed

lemma ex_staged_B_eval:
  "ex_staged_B =
     \<lparr>currentTool = Some reorder_tool, pickedFiles = [ex_B],
      fileList = [PageItem 0 False 0 1 True, PageItem 1 False 0 2 True],
      organizePages =
        [\<lparr>element = 0, element_fileIndex = 0, ofile = ex_B, pageNum = 1, selected = True\<rparr>,
         \<lparr>element = 1, element_fileIndex = 0, ofile = ex_B, pageNum = 2, selected = True\<rparr>],
      statusEl = ([], ''status-message''), filesView = True, draggedElement = None,
      draggedIndex = None, nextElem = 2, requests = [], downloads = []\<rparr>"
  by (simp add: ex_staged_B_def handleAddFiles_def setTool_def getTools_def initial_def
      clearStatus_def clearFiles_def showUploadPlaceholder_def showFilesView_def
      type_match_def ex_B_def addFileItem_def addPdfAsPages_def ex_js_def addPdfPageItem_def
      reorder_tool_def Let_def)

theorem expansion_appends_each_time_witness:
  "ex_js ex_B = Loaded [PageOk, PageOk] \<and>
   page_entries (fileList (addPdfAsPages ex_js ex_B 0 (setTool ''reorder'' initial))) =
     [(0, 1, True), (0, 2, True)] \<and>
   page_entries (fileList (addPdfAsPages ex_js ex_B 0
       (addPdfAsPages ex_js ex_B 0 (setTool ''reorder'' initial)))) =
     [(0, 1, True), (0, 2, True), (0, 1, True), (0, 2, True)]"
proof -
  have l: "ex_js ex_B = Loaded [PageOk, PageOk]"
    by (simp add: ex_js_def ex_B_def)
  have c: "created_pages [PageOk, PageOk] = [1, 2]"
    by (simp add: created_pages_def upt_conv_Cons)
  have e: "page_entries (fileList (setTool ''reorder'' initial)) = []"
    by (simp add: setTool_def getTools_def initial_def clearStatus_def clearFiles_def
        showUploadPlaceholder_def page_entries_def)
  show ?thesis
    using l expansion_appends_each_time
      [where js = ex_js and f = ex_B and outcomes = "[PageOk, PageOk]" and fi = 0
         and st = "setTool ''reorder'' initial"]
    by (simp add: c e)
qed

text \<open>
  C4 as stated fails: with document B staged and expanded, a second call of
  \<open>addPdfAsPages\<close> for B is not a no-op; the list then holds each page of B twice.
\<close>

theorem expansion_not_idempotent:
  "page_entries (fileList ex_staged_B) = [(0, 1, True), (0, 2, True)] \<and>
   addPdfAsPages ex_js ex_B 0 ex_staged_B \<noteq> ex_staged_B \<and>
   page_entries (fileList (addPdfAsPages ex_js ex_B 0 ex_staged_B)) =
     [(0, 1, True), (0, 2, True), (0, 1, True), (0, 2, True)] \<and>
   length (organizePages (addPdfAsPages ex_js ex_B 0 ex_staged_B)) = 4"
proof -
  have twice: "addPdfAsPages ex_js ex_B 0 ex_staged_B =
     ex_staged_B\<lparr>fileList := [PageItem 0 False 0 1 True, PageItem 1 False 0 2 True,
                               PageItem 2 False 0 1 True, PageItem 3 False 0 2 True],
       organizePages :=
        [\<lparr>element = 0, element_fileIndex = 0, ofile = ex_B, pageNum = 1, selected = True\<rparr>,
         \<lparr>element = 1, element_fileIndex = 0, ofile = ex_B, pageNum = 2, selected = True\<rparr>,
         \<lparr>element = 2, element_fileIndex = 0, ofile = ex_B, pageNum = 1, selected = True\<rparr>,
         \<lparr>element = 3, element_fileIndex = 0, ofile = ex_B, pageNum = 2, selected = True\<rparr>],
       nextElem := 4\<rparr>"
    unfolding ex_staged_B_eval
    by (simp add: addPdfAsPages_def ex_js_def ex_B_def addPdfPageItem_def)
  have "nextElem (addPdfAsPages ex_js ex_B 0 ex_staged_B) \<noteq> nextElem ex_staged_B"
    unfolding twice by (simp add: ex_staged_B_eval)
  then have ne: "addPdfAsPages ex_js ex_B 0 ex_staged_B \<noteq> ex_staged_B"
    by auto
  show ?thesis
    using ne by (simp add: twice) (simp add: ex_staged_B_eval page_entries_def)
qed

section \<open>Properties of the drag handlers\<close>

lemma no_organize_page_item: "''organize-page-item'' \<notin> set (classList c)"
  by (cases c) simp_all

lemma getDragAfterElement_node: "getDragAfterElement box (JNode children) y = Inr None"
proof -
  have "filter (\<lambda>c. ''organize-page-item'' \<in> set (classList c) \<and>
                  ''dragging'' \<notin> set (classList c)) children = []"
    by (simp add: no_organize_page_item)
  then show ?thesis by (simp add: getDragAfterElement_def)
qed

lemma getDragAfterElement_number: "getDragAfterElement box (JNum v) y = Inl TypeError"
  by (simp add: getDragAfterElement_def)

lemma page_dragover_appends:
  "draggedElement st = Some e \<Longrightarrow>
   page_dragover box y st = Inr (st\<lparr>fileList := appendChild e (fileList st)\<rparr>)"
  by (simp add: page_dragover_def getDragAfterElement_node)

lemma file_dragover_throws: "file_dragover box y st = Inl TypeError"
  by (simp add: file_dragover_def getDragAfterElement_number)

lemma file_dragovers_id: "file_dragovers evs st = st"
  by (induction evs arbitrary: st) (auto simp: file_dragover_throws)

lemma ex_drag_once:
  "drag_page 0 [(ex_box, 160)] ex_pages =
     ex_pages\<lparr>fileList := [PageItem 1 False 0 2 True, PageItem 2 False 0 3 True,
                             PageItem 0 False 0 1 True]\<rparr>"
  by (simp add: drag_page_def page_dragstart_def page_dragend_def page_dragover_appends
      appendChild_def mark_dragging_def ex_pages_def ex_organize_def)

lemma ex_overridden:
  "getDragAfterElement_overridden ex_box (fileList (page_dragstart 0 ex_pages)) 160 =
     Some (PageItem 2 False 0 3 True)"
  by (simp add: getDragAfterElement_overridden_def page_dragstart_def mark_dragging_def
      ex_pages_def ex_organize_def closest_step_def ex_box_def)


lemma ex_overridden_back:
  "getDragAfterElement_overridden ex_box2
     (fileList (page_dragstart 0 (drag_page 0 [(ex_box, 160)] ex_pages))) 10 =
     Some (PageItem 1 False 0 2 True)"
  by (subst ex_drag_once)
    (simp add: getDragAfterElement_overridden_def page_dragstart_def
      mark_dragging_def closest_step_def ex_box2_def)

lemma ex_drag_back:
  "fileList (drag_page 0 [(ex_box2, 10)] (drag_page 0 [(ex_box, 160)] ex_pages)) =
     [PageItem 1 False 0 2 True, PageItem 2 False 0 3 True, PageItem 0 False 0 1 True]"
  by (subst ex_drag_once)
    (simp add: drag_page_def page_dragstart_def page_dragend_def
      page_dragover_appends appendChild_def mark_dragging_def)

lemma ex_drag_file:
  "pickedFiles (drag_file ex_js 0 [(ex_box, 160)] ex_merge) = [ex_A, ex_B]"
  by (simp add: drag_file_def file_dragovers_id file_dragstart_def file_drop_def
      file_dragend_def mark_dragging_def refreshFileList_def addFileItem_def
      addRegularFileItem_def ex_merge_def merge_tool_def Let_def split: option.splits)

text \<open>
  C9, evaluated. In the organize tool the page of node 0 is dragged to pointer height
  160, between the midpoints of the two other pages: it lands at the end, not between
  them. Dragged back to height 10, above the first page, it is put at the end again, so
  the original order is not restored. In the merge tool the \<open>dragover\<close> listener throws
  and the files keep their order.
\<close>

theorem drag_back_does_not_restore:
  "map elem (fileList ex_pages) = [0, 1, 2] \<and>
   map elem (fileList (drag_page 0 [(ex_box, 160)] ex_pages)) = [1, 2, 0] \<and>
   map elem (fileList (drag_page 0 [(ex_box2, 10)] (drag_page 0 [(ex_box, 160)] ex_pages))) =
     [1, 2, 0] \<and>
   file_dragover ex_box 160 (file_dragstart 0 ex_merge) = Inl TypeError \<and>
   pickedFiles (drag_file ex_js 0 [(ex_box, 160)] ex_merge) = pickedFiles ex_merge"
proof -
  have a: "map elem (fileList ex_pages) = [0, 1, 2]"
    by (simp add: ex_pages_def ex_organize_def)
  have b: "map elem (fileList (drag_page 0 [(ex_box, 160)] ex_pages)) = [1, 2, 0]"
    unfolding ex_drag_once by simp
  have c: "map elem (fileList (drag_page 0 [(ex_box2, 10)] (drag_page 0 [(ex_box, 160)] ex_pages))) =
     [1, 2, 0]"
    unfolding ex_drag_back by simp
  have d: "file_dragover ex_box 160 (file_dragstart 0 ex_merge) = Inl TypeError"
    by (rule file_dragover_throws)
  have e: "pickedFiles (drag_file ex_js 0 [(ex_box, 160)] ex_merge) = pickedFiles ex_merge"
    unfolding ex_drag_file by (simp add: ex_merge_def)
  show ?thesis
    by (intro conjI) (fact a b c d e)+
qed

section \<open>The reconstruction after a removal\<close>

lemma ex_added:
  "handleAddFiles ex_js [ex_X, ex_A, ex_B] (setTool ''reorder'' initial) =
     Inr \<lparr>currentTool = Some reorder_tool, pickedFiles = [ex_X, ex_A, ex_B],
       fileList = [FileItem 0 False 0,
                   PageItem 1 False 1 1 True, PageItem 2 False 1 2 True,
                   PageItem 3 False 1 3 True, PageItem 4 False 1 4 True,
                   PageItem 5 False 1 5 True,
                   PageItem 6 False 2 1 True, PageItem 7 False 2 2 True],
       organizePages =
        [\<lparr>element = 1, element_fileIndex = 1, ofile = ex_A, pageNum = 1, selected = True\<rparr>,
         \<lparr>element = 2, element_fileIndex = 1, ofile = ex_A, pageNum = 2, selected = True\<rparr>,
         \<lparr>element = 3, element_fileIndex = 1, ofile = ex_A, pageNum = 3, selected = True\<rparr>,
         \<lparr>element = 4, element_fileIndex = 1, ofile = ex_A, pageNum = 4, selected = True\<rparr>,
         \<lparr>element = 5, element_fileIndex = 1, ofile = ex_A, pageNum = 5, selected = True\<rparr>,
         \<lparr>element = 6, element_fileIndex = 2, ofile = ex_B, pageNum = 1, selected = True\<rparr>,
         \<lparr>element = 7, element_fileIndex = 2, ofile = ex_B, pageNum = 2, selected = True\<rparr>],
       statusEl = ([], ''status-message''), filesView = True, draggedElement = None,
       draggedIndex = None, nextElem = 8, requests = [], downloads = []\<rparr>"
  by (simp add: handleAddFiles_def setTool_def getTools_def initial_def
      clearStatus_def clearFiles_def showUploadPlaceholder_def showFilesView_def
      type_match_def ex_A_def ex_B_def ex_X_def addFileItem_def addPdfAsPages_def ex_js_def
      addPdfPageItem_def addRegularFileItem_def reorder_tool_def Let_def)


lemma ex_stale_eval:
  "ex_stale =
     \<lparr>currentTool = Some reorder_tool, pickedFiles = [ex_A, ex_B],
       fileList = [PageItem 8 False 0 1 True, PageItem 9 False 0 2 True,
                   PageItem 10 False 0 3 True, PageItem 11 False 0 4 True,
                   PageItem 12 False 0 5 True,
                   PageItem 13 False 1 1 True, PageItem 14 False 1 2 True],
       organizePages =
        [\<lparr>element = 1, element_fileIndex = 1, ofile = ex_A, pageNum = 1, selected = True\<rparr>,
         \<lparr>element = 2, element_fileIndex = 1, ofile = ex_A, pageNum = 2, selected = True\<rparr>,
         \<lparr>element = 3, element_fileIndex = 1, ofile = ex_A, pageNum = 3, selected = True\<rparr>,
         \<lparr>element = 4, element_fileIndex = 1, ofile = ex_A, pageNum = 4, selected = True\<rparr>,
         \<lparr>element = 5, element_fileIndex = 1, ofile = ex_A, pageNum = 5, selected = True\<rparr>,
         \<lparr>element = 6, element_fileIndex = 2, ofile = ex_B, pageNum = 1, selected = True\<rparr>,
         \<lparr>element = 7, element_fileIndex = 2, ofile = ex_B, pageNum = 2, selected = True\<rparr>,
         \<lparr>element = 8, element_fileIndex = 0, ofile = ex_A, pageNum = 1, selected = True\<rparr>,
         \<lparr>element = 9, element_fileIndex = 0, ofile = ex_A, pageNum = 2, selected = True\<rparr>,
         \<lparr>element = 10, element_fileIndex = 0, ofile = ex_A, pageNum = 3, selected = True\<rparr>,
         \<lparr>element = 11, element_fileIndex = 0, ofile = ex_A, pageNum = 4, selected = True\<rparr>,
         \<lparr>element = 12, element_fileIndex = 0, ofile = ex_A, pageNum = 5, selected = True\<rparr>,
         \<lparr>element = 13, element_fileIndex = 1, ofile = ex_B, pageNum = 1, selected = True\<rparr>,
         \<lparr>element = 14, element_fileIndex = 1, ofile = ex_B, pageNum = 2, selected = True\<rparr>],
       statusEl = ([], ''status-message''), filesView = True, draggedElement = None,
       draggedIndex = None, nextElem = 15, requests = [], downloads = []\<rparr>"
  unfolding ex_stale_def ex_added
  by (simp add: removeFile_def refreshFileList_def addFileItem_def addPdfAsPages_def
      ex_js_def addPdfPageItem_def reorder_tool_def ex_A_def ex_B_def Let_def)

lemma ex_stale_plan:
  "forEach_batches (organizePages ex_stale) [] (selectedPageItems ex_stale) =
     Inr [\<lparr>fileIndex = 0, bfile = ex_A, pages = [1, 2, 3, 4, 5]\<rparr>,
          \<lparr>fileIndex = 1, bfile = ex_A, pages = [1, 2]\<rparr>]"
  unfolding ex_stale_eval by (simp add: selectedPageItems_def batch_step_def)

lemma ex_stale_snapshot: "snapshot_pages ex_stale = [10, 11, 12, 13, 14, 20, 21]"
  unfolding ex_stale_eval
  by (simp add: snapshot_pages_def selectedPageItems_def ex_A_def ex_B_def)

lemma ex_stale_run:
  "runOrganize spec_services ex_stale =
     (Inr (), ex_stale\<lparr>requests := [Reorder ex_A [1, 2, 3, 4, 5], Reorder ex_A [1, 2],
                                    Merge [[10, 11, 12, 13, 14], [10, 11]]],
                        downloads := [([10, 11, 12, 13, 14, 10, 11], ''organized.pdf'')]\<rparr>)"
proof -
  have sel: "selectedPageItems ex_stale \<noteq> []" "organizePages ex_stale \<noteq> []"
    and rq: "requests ex_stale = []" and dl: "downloads ex_stale = []"
    unfolding ex_stale_eval by (simp_all add: selectedPageItems_def)
  show ?thesis
    using sel
    by (simp add: runOrganize_def ex_stale_plan rq dl spec_services_def
        PageExtractionService_def DocumentMergeService_def downloadBlob_def ex_A_def)
qed

text \<open>
  C1, evaluated. The files X, A and B are added to the organize tool, X cannot be
  loaded and is removed with its button. The list then shows the five pages of A and
  the two pages of B, all included, and the snapshot denotes the pages 10 to 14 of A
  followed by the pages 20 and 21 of B. \<open>runOrganize\<close>, against services that work as
  specified, succeeds and downloads the pages of A followed by the first two pages of A:
  the entries of the first expansion are still in \<open>organizePages\<close>, and the lookup by
  \<open>fileIndex\<close> finds the old entry of A under the index that B now has.
\<close>

theorem stale_entries_break_the_order:
  "pickedFiles ex_stale = [ex_A, ex_B] \<and>
   page_entries (fileList ex_stale) =
     [(0, 1, True), (0, 2, True), (0, 3, True), (0, 4, True), (0, 5, True),
      (1, 1, True), (1, 2, True)] \<and>
   snapshot_pages ex_stale = [10, 11, 12, 13, 14, 20, 21] \<and>
   fst (runOrganize spec_services ex_stale) = Inr () \<and>
   downloads (snd (runOrganize spec_services ex_stale)) =
     [([10, 11, 12, 13, 14, 10, 11], ''organized.pdf'')]"
proof -
  have a: "pickedFiles ex_stale = [ex_A, ex_B]"
    unfolding ex_stale_eval by simp
  have b: "page_entries (fileList ex_stale) =
     [(0, 1, True), (0, 2, True), (0, 3, True), (0, 4, True), (0, 5, True),
      (1, 1, True), (1, 2, True)]"
    unfolding ex_stale_eval by (simp add: page_entries_def)
  have c: "fst (runOrganize spec_services ex_stale) = Inr ()"
    unfolding ex_stale_run by simp
  have d: "downloads (snd (runOrganize spec_services ex_stale)) =
     [([10, 11, 12, 13, 14, 10, 11], ''organized.pdf'')]"
    unfolding ex_stale_run by simp
  show ?thesis
    by (intro conjI) (fact a b ex_stale_snapshot c d)+
qed

section \<open>Order preservation for consistent snapshots\<close>

lemma batch_step_doc:
  assumes "list_all (batch_file_ok ops) bs" and "list_all batch_valid bs"
    and "consistent_item ops it"
  shows "\<exists>bs1. batch_step ops bs it = Inr bs1 \<and> bs1 \<noteq> [] \<and>
     list_all (batch_file_ok ops) bs1 \<and> list_all batch_valid bs1 \<and>
     concat (map batch_doc bs1) = concat (map batch_doc bs) @ snapshot_page ops it"
proof -
  from assms(3) obtain e d fi pn c p q where
    it: "it = PageItem e d fi pn c" and
    p: "List.find (\<lambda>p. element_fileIndex p = fi) ops = Some p" and
    q: "List.find (\<lambda>q. element q = e) ops = Some q" and
    same: "ofile p = ofile q" and pn: "1 \<le> pn" "pn \<le> length (fpages (ofile q))"
    by (cases it) (auto split: option.splits)
  have snap: "snapshot_page ops it = [fpages (ofile q) ! (pn - 1)]"
    using q pn by (simp add: it)
  show ?thesis
  proof (cases "bs = [] \<or> fileIndex (last bs) \<noteq> fi")
    case True
    let ?n = "\<lparr>fileIndex = fi, bfile = ofile p, pages = [pn]\<rparr>"
    have step: "batch_step ops bs it = Inr (bs @ [?n])"
      using True p by (simp add: batch_step_def it)
    have "batch_file_ok ops ?n" using p by (simp add: batch_file_ok_def)
    moreover have "batch_valid ?n" using pn same by (simp add: batch_valid_def)
    moreover have "batch_doc ?n = [fpages (ofile q) ! (pn - 1)]"
      using same by (simp add: batch_doc_def)
    ultimately show ?thesis using step assms(1,2) snap by simp
  next
    case False
    then have ne: "bs \<noteq> []" and fi: "fileIndex (last bs) = fi" by simp_all
    let ?l = "last bs"
    let ?n = "?l\<lparr>pages := pages ?l @ [pn]\<rparr>"
    have split: "bs = butlast bs @ [?l]" using ne by simp
    have step: "batch_step ops bs it = Inr (butlast bs @ [?n])"
      using False p by (simp add: batch_step_def it)
    have l: "batch_file_ok ops ?l" "batch_valid ?l"
      using assms(1,2) ne by (simp_all add: list_all_iff)
    then have lf: "bfile ?l = ofile q"
      using p fi same by (simp add: batch_file_ok_def)
    have 1: "batch_file_ok ops ?n" using l(1) by (simp add: batch_file_ok_def)
    have 2: "batch_valid ?n" using l(2) pn lf by (simp add: batch_valid_def)
    have 3: "batch_doc ?n = batch_doc ?l @ [fpages (ofile q) ! (pn - 1)]"
      using lf by (simp add: batch_doc_def)
    have b1: "list_all (batch_file_ok ops) (butlast bs)" "list_all batch_valid (butlast bs)"
      using assms(1,2) by (auto simp: list_all_iff dest: in_set_butlastD)
    have "concat (map batch_doc bs) = concat (map batch_doc (butlast bs)) @ batch_doc ?l"
      by (subst split) simp
    then have "concat (map batch_doc (butlast bs @ [?n])) =
        concat (map batch_doc bs) @ snapshot_page ops it"
      using 3 snap by simp
    then show ?thesis using step 1 2 b1 by simp
  qed
qed

lemma forEach_doc:
  assumes "list_all (batch_file_ok ops) bs" and "list_all batch_valid bs"
    and "list_all (consistent_item ops) its"
  shows "\<exists>bs'. forEach_batches ops bs its = Inr bs' \<and> (its \<noteq> [] \<longrightarrow> bs' \<noteq> []) \<and>
     list_all batch_valid bs' \<and>
     concat (map batch_doc bs') = concat (map batch_doc bs) @ concat (map (snapshot_page ops) its)"
  using assms
proof (induction its arbitrary: bs)
  case Nil
  then show ?case by simp
next
  case (Cons it its)
  from Cons.prems(3) have c: "consistent_item ops it" and cs: "list_all (consistent_item ops) its"
    by simp_all
  from batch_step_doc [OF Cons.prems(1,2) c] obtain bs1 where
    step: "batch_step ops bs it = Inr bs1" and ne: "bs1 \<noteq> []" and
    ok: "list_all (batch_file_ok ops) bs1" "list_all batch_valid bs1" and
    doc: "concat (map batch_doc bs1) = concat (map batch_doc bs) @ snapshot_page ops it"
    by blast
  from Cons.IH [OF ok cs] obtain bs' where
    run: "forEach_batches ops bs1 its = Inr bs'" and
    ne': "its \<noteq> [] \<longrightarrow> bs' \<noteq> []" and
    valid: "list_all batch_valid bs'" and
    doc': "concat (map batch_doc bs') = concat (map batch_doc bs1) @ concat (map (snapshot_page ops) its)"
    by blast
  have "bs' \<noteq> []"
    using ne ne' run by (cases its) auto
  then show ?case using step run valid doc doc' by simp
qed

lemma replies_spec:
  "list_all batch_valid bs \<Longrightarrow> replies spec_services h bs = map Ok (map batch_doc bs)"
  by (induction bs arbitrary: h)
    (simp_all add: spec_services_def PageExtractionService_def batch_request_def
      batch_valid_def batch_doc_def)

text \<open>
  X1. Order preservation, under the condition that the stale entries violate: when
  every included item is consistent and the services work as specified, \<open>runOrganize\<close>
  succeeds and downloads exactly the page sequence that the snapshot denotes.
\<close>

theorem order_preserved_when_consistent:
  assumes "selectedPageItems st \<noteq> []"
    and "list_all (consistent_item (organizePages st)) (selectedPageItems st)"
  shows "fst (runOrganize spec_services st) = Inr () \<and>
     downloads (snd (runOrganize spec_services st)) =
       downloads st @ [(snapshot_pages st, ''organized.pdf'')]"
proof -
  from forEach_doc [of "organizePages st" "[]", OF _ _ assms(2)] assms(1) obtain bs where
    plan: "forEach_batches (organizePages st) [] (selectedPageItems st) = Inr bs" and
    ne: "bs \<noteq> []" and valid: "list_all batch_valid bs" and
    doc: "concat (map batch_doc bs) = snapshot_pages st"
    by (auto simp: snapshot_pages_def)
  have ops: "organizePages st \<noteq> []"
    using forEach_nonempty [OF plan assms(1)] .
  let ?st1 = "st\<lparr>requests := requests st @ map batch_request bs\<rparr>"
  have loop: "extract_loop spec_services bs [] st = (Inr (map batch_doc bs), ?st1)"
    using extract_loop_all_ok [where svc = spec_services and st = st and bs = bs and acc = "[]",
        OF replies_spec [OF valid]] by simp
  show ?thesis
  proof (cases "length bs = 1")
    case True
    then obtain b where b: "bs = [b]" by (cases bs) auto
    then show ?thesis
      using assms(1) ops plan loop doc by (simp add: runOrganize_def downloadBlob_def)
  next
    case False
    then show ?thesis
      using assms(1) ops plan loop doc
      by (simp add: runOrganize_def downloadBlob_def spec_services_def DocumentMergeService_def)
  qed
qed

theorem order_preserved_when_consistent_witness:
  "selectedPageItems ex_organize \<noteq> [] \<and>
   list_all (consistent_item (organizePages ex_organize)) (selectedPageItems ex_organize) \<and>
   snapshot_pages ex_organize = [10, 12, 21, 14] \<and>
   fst (runOrganize spec_services ex_organize) = Inr () \<and>
   downloads (snd (runOrganize spec_services ex_organize)) = [([10, 12, 21, 14], ''organized.pdf'')]"
proof -
  have s: "selectedPageItems ex_organize \<noteq> []"
    by (simp add: ex_defs)
  have c: "list_all (consistent_item (organizePages ex_organize)) (selectedPageItems ex_organize)"
    by (simp add: ex_defs ex_A_def ex_B_def)
  have p: "snapshot_pages ex_organize = [10, 12, 21, 14]"
    by (simp add: snapshot_pages_def ex_defs ex_A_def ex_B_def)
  have d: "downloads ex_organize = []"
    by (simp add: ex_defs)
  show ?thesis
    using s c p order_preserved_when_consistent [OF s c] by (simp add: d)
qed

section \<open>What a drag does\<close>

lemma appendChild_others:
  "filter (\<lambda>i. elem i \<noteq> e) (appendChild e xs) = filter (\<lambda>i. elem i \<noteq> e) xs"
proof (cases "List.find (\<lambda>i. elem i = e) xs")
  case None
  then show ?thesis by (simp add: appendChild_def)
next
  case (Some it)
  then have "elem it = e" by (auto simp: find_Some_iff)
  then show ?thesis using Some by (simp add: appendChild_def)
qed

text \<open>
  X2. In the organize tool, whatever the layout and the pointer height, a \<open>dragover\<close>
  puts the dragged page at the end of the list; the other items keep their relative
  order.
\<close>

theorem organize_dragover_always_appends:
  assumes "draggedElement st = Some e"
  shows "page_dragover box y st = Inr (st\<lparr>fileList := appendChild e (fileList st)\<rparr>) \<and>
     filter (\<lambda>i. elem i \<noteq> e) (appendChild e (fileList st)) =
       filter (\<lambda>i. elem i \<noteq> e) (fileList st)"
  using assms by (simp add: page_dragover_appends appendChild_others)

theorem organize_dragover_always_appends_witness:
  "draggedElement (page_dragstart 0 ex_pages) = Some 0 \<and>
   map elem (appendChild 0 (fileList (page_dragstart 0 ex_pages))) = [1, 2, 0] \<and>
   page_dragover ex_box 160 (page_dragstart 0 ex_pages) =
     Inr (page_dragstart 0 ex_pages
            \<lparr>fileList := appendChild 0 (fileList (page_dragstart 0 ex_pages))\<rparr>)"
proof -
  have d: "draggedElement (page_dragstart 0 ex_pages) = Some 0"
    by (simp add: page_dragstart_def ex_pages_def ex_organize_def)
  have a: "map elem (appendChild 0 (fileList (page_dragstart 0 ex_pages))) = [1, 2, 0]"
    by (simp add: page_dragstart_def ex_pages_def ex_organize_def appendChild_def
        mark_dragging_def)
  from organize_dragover_always_appends [OF d, of ex_box 160]
  have "page_dragover ex_box 160 (page_dragstart 0 ex_pages) =
     Inr (page_dragstart 0 ex_pages
            \<lparr>fileList := appendChild 0 (fileList (page_dragstart 0 ex_pages))\<rparr>)"
    by blast
  then show ?thesis using d a by blast
qed

text \<open>
  X3. In the merge and images-to-pdf tools the \<open>dragover\<close> listener throws a \<open>TypeError\<close>
  in every state, at every pointer height, before it moves anything.
\<close>

theorem file_dragover_always_throws: "file_dragover box y st = Inl TypeError"
  by (rule file_dragover_throws)

section \<open>Batches and source documents\<close>

lemma spec_runs_relabel:
  "spec_runs (map (\<lambda>k. ((fst k, h (fst k)), snd k)) ks) =
     map (\<lambda>r. ((fst r, h (fst r)), snd r)) (spec_runs ks)"
proof (induction ks rule: spec_runs.induct)
  case 1
  then show ?case by simp
next
  case (2 d p xs)
  let ?f = "\<lambda>k. ((fst k, h (fst k)), snd k)"
  have eq: "(\<lambda>x. fst x = d \<and> h (fst x) = h d) = (\<lambda>x. fst x = d)"
    by auto
  have tw: "takeWhile (\<lambda>x. fst x = (d, h d)) (map ?f xs) = map ?f (takeWhile (\<lambda>x. fst x = d) xs)"
    by (simp add: takeWhile_map comp_def eq)
  have dw: "dropWhile (\<lambda>x. fst x = (d, h d)) (map ?f xs) = map ?f (dropWhile (\<lambda>x. fst x = d) xs)"
    by (simp add: dropWhile_map comp_def eq)
  show ?case using "2.IH" by (simp add: tw dw comp_def)
qed

lemma agrees_registered: "lookup_agrees ops it \<Longrightarrow> registered ops it"
  by (cases it) (auto split: option.splits)

lemma agrees_doc_key:
  assumes "list_all (lookup_agrees ops) its"
  shows "doc_keys ops its =
     map (\<lambda>k. ((fst k, ofile (the (List.find (\<lambda>p. element_fileIndex p = fst k) ops))), snd k))
       (page_keys its)"
  using assms
proof (induction its)
  case Nil
  then show ?case by (simp add: doc_keys_def page_keys_def)
next
  case (Cons it its)
  from Cons.prems have a: "lookup_agrees ops it" and r: "list_all (lookup_agrees ops) its"
    by simp_all
  from a obtain e d fi pn c q p where
    it: "it = PageItem e d fi pn c" and
    q: "List.find (\<lambda>q. element q = e) ops = Some q" and
    p: "List.find (\<lambda>p. element_fileIndex p = fi) ops = Some p" and
    same: "ofile p = ofile q"
    by (cases it) (auto split: option.splits)
  have "doc_keys ops (it # its) = ((fi, ofile q), pn) # doc_keys ops its"
    using q by (simp add: doc_keys_def it)
  moreover have "page_keys (it # its) = (fi, pn) # page_keys its"
    by (simp add: page_keys_def it)
  ultimately show ?case using Cons.IH [OF r] p same by simp
qed

text \<open>
  X4. For every snapshot in which the lookup of \<open>runOrganize\<close> agrees with each included
  item, the planner produces one batch per maximal contiguous run of items with the same
  source document, in display order, each batch with that document's file and with the
  page numbers of its items in display order.
\<close>

theorem batches_are_runs_by_document:
  assumes "list_all (lookup_agrees (organizePages st)) (selectedPageItems st)"
  shows "\<exists>bs. forEach_batches (organizePages st) [] (selectedPageItems st) = Inr bs \<and>
     map (\<lambda>b. ((fileIndex b, bfile b), pages b)) bs =
       spec_runs (doc_keys (organizePages st) (selectedPageItems st))"
proof -
  let ?ops = "organizePages st"
  let ?h = "\<lambda>fi. ofile (the (List.find (\<lambda>p. element_fileIndex p = fi) ?ops))"
  have reg: "list_all (registered ?ops) (selectedPageItems st)"
    using assms by (auto simp: list_all_iff intro: agrees_registered)
  from plan_runs [OF reg] obtain bs where
    plan: "forEach_batches ?ops [] (selectedPageItems st) = Inr bs" and
    view: "map (\<lambda>b. (fileIndex b, pages b)) bs = spec_runs (page_keys (selectedPageItems st))" and
    files: "list_all (\<lambda>b. map_option ofile (List.find (\<lambda>p. element_fileIndex p = fileIndex b) ?ops)
              = Some (bfile b)) bs"
    by blast
  have "map (\<lambda>b. ((fileIndex b, bfile b), pages b)) bs =
        map (\<lambda>b. ((fileIndex b, ?h (fileIndex b)), pages b)) bs"
    using files by (auto simp: list_all_iff)
  also have "\<dots> = map (\<lambda>r. ((fst r, ?h (fst r)), snd r)) (map (\<lambda>b. (fileIndex b, pages b)) bs)"
    by simp
  also have "\<dots> = spec_runs (map (\<lambda>k. ((fst k, ?h (fst k)), snd k)) (page_keys (selectedPageItems st)))"
    unfolding view by (rule spec_runs_relabel [symmetric])
  also have "\<dots> = spec_runs (doc_keys ?ops (selectedPageItems st))"
    using agrees_doc_key [OF assms] by simp
  finally show ?thesis using plan by blast
qed

theorem batches_are_runs_by_document_witness:
  "list_all (lookup_agrees (organizePages ex_organize)) (selectedPageItems ex_organize) \<and>
   doc_keys (organizePages ex_organize) (selectedPageItems ex_organize) =
     [((0, ex_A), 1), ((0, ex_A), 3), ((1, ex_B), 2), ((0, ex_A), 5)] \<and>
   (\<exists>bs. forEach_batches (organizePages ex_organize) [] (selectedPageItems ex_organize) = Inr bs \<and>
      map (\<lambda>b. ((fileIndex b, bfile b), pages b)) bs =
        [((0, ex_A), [1, 3]), ((1, ex_B), [2]), ((0, ex_A), [5])])"
proof -
  have a: "list_all (lookup_agrees (organizePages ex_organize)) (selectedPageItems ex_organize)"
    by (simp add: ex_defs)
  have k: "doc_keys (organizePages ex_organize) (selectedPageItems ex_organize) =
     [((0, ex_A), 1), ((0, ex_A), 3), ((1, ex_B), 2), ((0, ex_A), 5)]"
    by (simp add: ex_defs doc_keys_def)
  have ne: "ex_A \<noteq> ex_B"
    by (simp add: ex_A_def ex_B_def)
  from batches_are_runs_by_document [OF a] obtain bs where
    run: "forEach_batches (organizePages ex_organize) [] (selectedPageItems ex_organize) = Inr bs" and
    view: "map (\<lambda>b. ((fileIndex b, bfile b), pages b)) bs =
       spec_runs (doc_keys (organizePages ex_organize) (selectedPageItems ex_organize))"
    by blast
  have v: "map (\<lambda>b. ((fileIndex b, bfile b), pages b)) bs =
        [((0, ex_A), [1, 3]), ((1, ex_B), [2]), ((0, ex_A), [5])]"
    unfolding view k using ne by simp
  show ?thesis
    by (intro conjI exI [where x = bs]) (fact a k run v)+
qed

lemma ex_unrendered_eval:
  "ex_unrendered =
     \<lparr>currentTool = Some reorder_tool, pickedFiles = [ex_B, ex_C],
       fileList = [PageItem 0 False 0 1 True, PageItem 1 False 0 2 True,
                   PageItem 2 False 1 1 True],
       organizePages =
        [\<lparr>element = 0, element_fileIndex = 0, ofile = ex_B, pageNum = 1, selected = True\<rparr>,
         \<lparr>element = 1, element_fileIndex = 0, ofile = ex_B, pageNum = 2, selected = True\<rparr>],
       statusEl = ([], ''status-message''), filesView = True, draggedElement = None,
       draggedIndex = None, nextElem = 3, requests = [], downloads = []\<rparr>"
  by (simp add: ex_unrendered_def handleAddFiles_def setTool_def getTools_def initial_def
      clearStatus_def clearFiles_def showUploadPlaceholder_def showFilesView_def
      type_match_def ex_B_def ex_C_def addFileItem_def addPdfAsPages_def ex_js_def
      ex_js_norender_def addPdfPageItem_def reorder_tool_def Let_def)

lemma ex_stale_docs:
  "doc_keys (organizePages ex_stale) (selectedPageItems ex_stale) =
     [((0, ex_A), 1), ((0, ex_A), 2), ((0, ex_A), 3), ((0, ex_A), 4), ((0, ex_A), 5),
      ((1, ex_B), 1), ((1, ex_B), 2)]"
  unfolding ex_stale_eval by (simp add: doc_keys_def selectedPageItems_def)

text \<open>
  C2, evaluated. After X, A and B were added and X was removed, the included items are
  the five pages of A and the two pages of B, so the batches by source document are
  (A, 1 to 5) and (B, 1 and 2). The planner builds two batches with these page numbers,
  and gives both the file of A: the lookup by \<open>fileIndex\<close> finds the stale entry of A
  under the index of B. And when the rendering of the only page of C failed, the node
  of that page is included and has no entry: the planner throws, and no batch is built.
\<close>

theorem stale_entries_mislabel_batches:
  "spec_runs (doc_keys (organizePages ex_stale) (selectedPageItems ex_stale)) =
     [((0, ex_A), [1, 2, 3, 4, 5]), ((1, ex_B), [1, 2])] \<and>
   map_sum id (map (\<lambda>b. ((fileIndex b, bfile b), pages b)))
       (forEach_batches (organizePages ex_stale) [] (selectedPageItems ex_stale)) =
     Inr [((0, ex_A), [1, 2, 3, 4, 5]), ((1, ex_A), [1, 2])] \<and>
   ex_A \<noteq> ex_B \<and>
   page_entries (fileList ex_unrendered) = [(0, 1, True), (0, 2, True), (1, 1, True)] \<and>
   forEach_batches (organizePages ex_unrendered) [] (selectedPageItems ex_unrendered) =
     Inl TypeError \<and>
   fst (runOrganize spec_services ex_unrendered) = Inl TypeError"
proof -
  have ne: "ex_A \<noteq> ex_B"
    by (simp add: ex_A_def ex_B_def)
  have a: "spec_runs (doc_keys (organizePages ex_stale) (selectedPageItems ex_stale)) =
     [((0, ex_A), [1, 2, 3, 4, 5]), ((1, ex_B), [1, 2])]"
    unfolding ex_stale_docs using ne by simp
  have b: "map_sum id (map (\<lambda>b. ((fileIndex b, bfile b), pages b)))
       (forEach_batches (organizePages ex_stale) [] (selectedPageItems ex_stale)) =
     Inr [((0, ex_A), [1, 2, 3, 4, 5]), ((1, ex_A), [1, 2])]"
    unfolding ex_stale_plan by simp
  have c: "page_entries (fileList ex_unrendered) = [(0, 1, True), (0, 2, True), (1, 1, True)]"
    unfolding ex_unrendered_eval by (simp add: page_entries_def)
  have d: "forEach_batches (organizePages ex_unrendered) [] (selectedPageItems ex_unrendered) =
     Inl TypeError"
    unfolding ex_unrendered_eval by (simp add: selectedPageItems_def batch_step_def)
  have "selectedPageItems ex_unrendered \<noteq> []" "organizePages ex_unrendered \<noteq> []"
    unfolding ex_unrendered_eval by (simp_all add: selectedPageItems_def)
  then have e: "fst (runOrganize spec_services ex_unrendered) = Inl TypeError"
    by (simp add: runOrganize_def d)
  show ?thesis
    by (intro conjI) (fact a b ne c d e)+
qed

section \<open>Properties of the expansions as tasks\<close>

lemma resume_notice: "notice (fst (resume js k st)) = notice st"
  by (cases k)
    (auto simp: notice_def addRegularFileItem_def split: pdf_load.splits)

lemma advance_notice: "notice (fst (advance js i c)) = notice (fst c)"
proof (cases "i < length (snd c)")
  case True
  obtain st' k where r: "resume js (snd c ! i) (fst c) = (st', k)"
    by (cases "resume js (snd c ! i) (fst c)")
  have "notice st' = notice (fst c)"
    using resume_notice [of js "snd c ! i" "fst c"] r by simp
  then show ?thesis using True r by (simp add: advance_def)
next
  case False
  then show ?thesis by (simp add: advance_def)
qed

lemma run_schedule_notice: "notice (fst (run_schedule js sched c)) = notice (fst c)"
  by (induction sched arbitrary: c) (simp_all add: advance_notice)

lemma addFileItem_notice: "notice (addFileItem js f idx st) = notice st"
  by (simp add: notice_def addFileItem_statusEl addFileItem_picked addFileItem_tool)

lemma addFileItem_async_notice: "notice (fst (addFileItem_async f idx c)) = notice (fst c)"
  by (simp add: addFileItem_async_def notice_def addRegularFileItem_def split: option.splits)

lemma intake_async_notice:
  assumes "notice (fst c) = notice st"
  shows "map_sum id (\<lambda>c. notice (fst c)) (intake_async pat fs c) =
     map_sum id notice (intake js pat fs st)"
  using assms
proof (induction fs arbitrary: c st)
  case Nil
  then show ?case by simp
next
  case (Cons f fs)
  from Cons.prems have tool: "currentTool (fst c) = currentTool st"
    and picked: "pickedFiles (fst c) = pickedFiles st"
    by (simp_all add: notice_def)
  show ?case
  proof (cases "currentTool st")
    case None
    then show ?thesis using tool by simp
  next
    case (Some t)
    let ?msg = "''File \"'' @ fname f @ ''\" is not accepted for this tool''"
    have rej: "notice (fst (showStatus ?msg ''error'' (fst c), snd c)) =
        notice (showStatus ?msg ''error'' st)"
      using Cons.prems by (simp add: notice_def showStatus_def)
    have rep: "notice (fst (addFileItem_async f 0 ((fst c)\<lparr>pickedFiles := [f], fileList := []\<rparr>, snd c))) =
        notice (addFileItem js f 0 (st\<lparr>pickedFiles := [f], fileList := []\<rparr>))"
      using Cons.prems by (simp add: addFileItem_async_notice addFileItem_notice) (simp add: notice_def)
    have push: "notice (fst (addFileItem_async f (length (pickedFiles (fst c)))
                    ((fst c)\<lparr>pickedFiles := pickedFiles (fst c) @ [f]\<rparr>, snd c))) =
        notice (addFileItem js f (length (pickedFiles st)) (st\<lparr>pickedFiles := pickedFiles st @ [f]\<rparr>))"
      using Cons.prems by (simp add: addFileItem_async_notice addFileItem_notice) (simp add: notice_def)
    show ?thesis
    proof (cases "pat \<noteq> [] \<and> \<not> type_match (ftype f) pat")
      case True
      have a: "intake_async pat (f # fs) c =
          intake_async pat fs (showStatus ?msg ''error'' (fst c), snd c)"
        using Some tool True by simp
      have b: "intake js pat (f # fs) st = intake js pat fs (showStatus ?msg ''error'' st)"
        using Some True by simp
      show ?thesis unfolding a b by (rule Cons.IH [OF rej])
    next
      case False
      note acc = this
      show ?thesis
      proof (cases "\<not> multiple t \<and> pickedFiles st \<noteq> []")
        case True
        have a: "intake_async pat (f # fs) c =
            Inr (addFileItem_async f 0 ((fst c)\<lparr>pickedFiles := [f], fileList := []\<rparr>, snd c))"
          using Some tool picked acc True by auto
        have b: "intake js pat (f # fs) st =
            Inr (addFileItem js f 0 (st\<lparr>pickedFiles := [f], fileList := []\<rparr>))"
          using Some acc True by auto
        show ?thesis unfolding a b using rep by simp
      next
        case False
        have a: "intake_async pat (f # fs) c =
            intake_async pat fs
              (addFileItem_async f (length (pickedFiles (fst c)))
                 ((fst c)\<lparr>pickedFiles := pickedFiles (fst c) @ [f]\<rparr>, snd c))"
          using Some tool picked acc False by auto
        have b: "intake js pat (f # fs) st =
            intake js pat fs
              (addFileItem js f (length (pickedFiles st)) (st\<lparr>pickedFiles := pickedFiles st @ [f]\<rparr>))"
          using Some acc False by auto
        show ?thesis unfolding a b by (rule Cons.IH [OF push])
      qed
    qed
  qed
qed

text \<open>
  X6. The status line, the picked files and the tool that a call of \<open>handleAddFiles\<close>
  leaves do not depend on when the expansions it started are resumed: after every
  schedule they are the ones of the model that runs each expansion at once.
\<close>

theorem notice_is_schedule_independent:
  "map_sum id (\<lambda>c. notice (fst (run_schedule js sched c))) (handleAddFiles_async files (st, ts)) =
     map_sum id notice (handleAddFiles js files st)"
proof -
  let ?pat = "case currentTool st of None \<Rightarrow> [] | Some t \<Rightarrow> replace_star (accept t)"
  let ?s = "if files \<noteq> [] then showFilesView (clearStatus st) else clearStatus st"
  have "map_sum id (\<lambda>c. notice (fst c)) (intake_async ?pat files (?s, ts)) =
      map_sum id notice (intake js ?pat files ?s)"
    by (rule intake_async_notice) simp
  moreover have "map_sum id (\<lambda>c. notice (fst (run_schedule js sched c))) x =
      map_sum id (\<lambda>c. notice (fst c)) x" for x :: "exn + state \<times> task list"
    by (cases x) (simp_all add: run_schedule_notice)
  ultimately show ?thesis
    by (simp add: handleAddFiles_async_def handleAddFiles_def Let_def)
qed


lemma run_schedule_idle: "run_schedule js sched (st, []) = (st, [])"
  by (induction sched) (simp_all add: advance_def)

lemma run_pages:
  assumes "2 * length outcomes \<le> n"
  shows "run_schedule js (replicate n 0) (st, next_page f fi pn outcomes) =
     (addPages f fi pn outcomes st, [])"
  using assms
proof (induction outcomes arbitrary: n st pn)
  case Nil
  then show ?case by (simp add: run_schedule_idle)
next
  case (Cons outcome rest)
  from Cons.prems obtain m where n: "n = Suc (Suc m)" and m: "2 * length rest \<le> m"
    by (cases n; cases "n - 1") auto
  have step: "run_schedule js (replicate (Suc k) 0) c = run_schedule js (replicate k 0) (advance js 0 c)"
    for k c by simp
  show ?case
  proof (cases "outcome = GetPageFails")
    case True
    have one: "advance js 0 (st, next_page f fi pn (outcome # rest)) = (st, next_page f fi (Suc pn) rest)"
      using True by (simp add: advance_def)
    have le: "2 * length rest \<le> Suc m" using m by simp
    have "run_schedule js (replicate n 0) (st, next_page f fi pn (outcome # rest)) =
        run_schedule js (replicate (Suc m) 0) (st, next_page f fi (Suc pn) rest)"
      unfolding n step one ..
    also have "\<dots> = (addPages f fi (Suc pn) rest st, [])"
      by (rule Cons.IH [OF le])
    also have "addPages f fi (Suc pn) rest st = addPages f fi pn (outcome # rest) st"
      using True by (simp add: addPdfPageItem_def)
    finally show ?thesis .
  next
    case False
    let ?s1 = "st\<lparr>fileList := fileList st @ [PageItem (nextElem st) False fi pn True],
                  nextElem := Suc (nextElem st)\<rparr>"
    have one: "advance js 0 (st, next_page f fi pn (outcome # rest)) =
        (?s1, [Rendering f fi pn (nextElem st) outcome rest])"
      using False by (simp add: advance_def)
    have two: "advance js 0 (?s1, [Rendering f fi pn (nextElem st) outcome rest]) =
        (addPdfPageItem outcome f fi pn st, next_page f fi (Suc pn) rest)"
      using False by (cases outcome) (simp_all add: advance_def addPdfPageItem_def)
    have "run_schedule js (replicate n 0) (st, next_page f fi pn (outcome # rest)) =
        run_schedule js (replicate m 0) (addPdfPageItem outcome f fi pn st, next_page f fi (Suc pn) rest)"
      unfolding n step one two ..
    also have "\<dots> = (addPages f fi (Suc pn) rest (addPdfPageItem outcome f fi pn st), [])"
      by (rule Cons.IH [OF m])
    finally show ?thesis by simp
  qed
qed

text \<open>
  X7. An expansion that is resumed until it ends, with nothing in between, does what
  \<open>addFileItem\<close> of the model does in one step.
\<close>

theorem expansion_alone_is_addFileItem:
  "run_schedule js (replicate (stretches js f) 0) (addFileItem_async f idx (st, [])) =
     (addFileItem js f idx st, [])"
proof (cases "\<exists>t. currentTool st = Some t \<and> tname t = ''reorder'' \<and> ftype f = ''application/pdf''")
  case False
  then have "addFileItem_async f idx (st, []) = (addFileItem js f idx st, [])"
    by (auto simp: addFileItem_async_def addFileItem_def split: option.splits)
  then show ?thesis by (simp add: run_schedule_idle)
next
  case True
  then have start: "addFileItem_async f idx (st, []) = (st, [Loading f idx])"
    and sync: "addFileItem js f idx st = addPdfAsPages js f idx st"
    by (auto simp: addFileItem_async_def addFileItem_def)
  show ?thesis
  proof (cases "js f")
    case LoadFails
    then show ?thesis
      by (simp add: start sync stretches_def advance_def addPdfAsPages_def)
  next
    case (Loaded outcomes)
    have "advance js 0 (st, [Loading f idx]) = (st, next_page f idx 1 outcomes)"
      using Loaded by (simp add: advance_def)
    then show ?thesis
      using Loaded run_pages [of outcomes "2 * length outcomes" js st f idx 1]
      by (simp add: start sync stretches_def addPdfAsPages_def)
  qed
qed


lemma ex_started_eval:
  "handleAddFiles_async [ex_A, ex_B] (setTool ''reorder'' initial, []) = Inr ex_started \<and>
   ex_started =
     (\<lparr>currentTool = Some reorder_tool, pickedFiles = [ex_A, ex_B], fileList = [],
       organizePages = [], statusEl = ([], ''status-message''), filesView = True,
       draggedElement = None, draggedIndex = None, nextElem = 0, requests = [],
       downloads = []\<rparr>,
      [Loading ex_A 0, Loading ex_B 1])"
  by (simp add: ex_started_def handleAddFiles_async_def setTool_def getTools_def initial_def
      clearStatus_def clearFiles_def showUploadPlaceholder_def showFilesView_def
      type_match_def ex_A_def ex_B_def addFileItem_async_def reorder_tool_def Let_def)

lemma ex_js_A: "ex_js ex_A = Loaded [PageOk, PageOk, PageOk, PageOk, PageOk]"
  and ex_js_B: "ex_js ex_B = Loaded [PageOk, PageOk]"
  by (simp_all add: ex_js_def ex_A_def ex_B_def)

lemma ex_round_robin:
  "run_schedule ex_js (concat (replicate 11 [0, 1])) ex_started =
     (\<lparr>currentTool = Some reorder_tool, pickedFiles = [ex_A, ex_B],
       fileList = [PageItem 0 False 0 1 True, PageItem 1 False 1 1 True,
                   PageItem 2 False 0 2 True, PageItem 3 False 1 2 True,
                   PageItem 4 False 0 3 True, PageItem 5 False 0 4 True,
                   PageItem 6 False 0 5 True],
       organizePages =
        [\<lparr>element = 0, element_fileIndex = 0, ofile = ex_A, pageNum = 1, selected = True\<rparr>,
         \<lparr>element = 1, element_fileIndex = 1, ofile = ex_B, pageNum = 1, selected = True\<rparr>,
         \<lparr>element = 2, element_fileIndex = 0, ofile = ex_A, pageNum = 2, selected = True\<rparr>,
         \<lparr>element = 3, element_fileIndex = 1, ofile = ex_B, pageNum = 2, selected = True\<rparr>,
         \<lparr>element = 4, element_fileIndex = 0, ofile = ex_A, pageNum = 3, selected = True\<rparr>,
         \<lparr>element = 5, element_fileIndex = 0, ofile = ex_A, pageNum = 4, selected = True\<rparr>,
         \<lparr>element = 6, element_fileIndex = 0, ofile = ex_A, pageNum = 5, selected = True\<rparr>],
       statusEl = ([], ''status-message''), filesView = True, draggedElement = None,
       draggedIndex = None, nextElem = 7, requests = [], downloads = []\<rparr>,
      [])"
  unfolding conjunct2 [OF ex_started_eval]
  by (simp add: advance_def ex_js_A ex_js_B eval_nat_numeral)

lemma ex_in_turn:
  "run_schedule ex_js (replicate 16 0) ex_started =
     (\<lparr>currentTool = Some reorder_tool, pickedFiles = [ex_A, ex_B],
       fileList = [PageItem 0 False 0 1 True, PageItem 1 False 0 2 True,
                   PageItem 2 False 0 3 True, PageItem 3 False 0 4 True,
                   PageItem 4 False 0 5 True, PageItem 5 False 1 1 True,
                   PageItem 6 False 1 2 True],
       organizePages =
        [\<lparr>element = 0, element_fileIndex = 0, ofile = ex_A, pageNum = 1, selected = True\<rparr>,
         \<lparr>element = 1, element_fileIndex = 0, ofile = ex_A, pageNum = 2, selected = True\<rparr>,
         \<lparr>element = 2, element_fileIndex = 0, ofile = ex_A, pageNum = 3, selected = True\<rparr>,
         \<lparr>element = 3, element_fileIndex = 0, ofile = ex_A, pageNum = 4, selected = True\<rparr>,
         \<lparr>element = 4, element_fileIndex = 0, ofile = ex_A, pageNum = 5, selected = True\<rparr>,
         \<lparr>element = 5, element_fileIndex = 1, ofile = ex_B, pageNum = 1, selected = True\<rparr>,
         \<lparr>element = 6, element_fileIndex = 1, ofile = ex_B, pageNum = 2, selected = True\<rparr>],
       statusEl = ([], ''status-message''), filesView = True, draggedElement = None,
       draggedIndex = None, nextElem = 7, requests = [], downloads = []\<rparr>,
      [])"
  unfolding conjunct2 [OF ex_started_eval]
  by (simp add: advance_def ex_js_A ex_js_B eval_nat_numeral)

lemma ex_sync:
  "handleAddFiles ex_js [ex_A, ex_B] (setTool ''reorder'' initial) =
     Inr (fst (run_schedule ex_js (replicate 16 0) ex_started))"
  unfolding ex_in_turn
  by (simp add: handleAddFiles_def setTool_def getTools_def initial_def
      clearStatus_def clearFiles_def showUploadPlaceholder_def showFilesView_def
      type_match_def addFileItem_def addPdfAsPages_def ex_js_A ex_js_B addPdfPageItem_def
      reorder_tool_def Let_def)
    (simp add: ex_A_def ex_B_def)


text \<open>
  X8. The expansion of a document is not one step. Documents A and B are added to the
  organize tool in one call, which returns with two expansions started. When they are
  resumed in turn, the list shows A1, B1, A2, B2, A3, A4, A5 and the planner builds five
  batches; when the expansion of A ends before that of B is resumed, the list shows the
  pages of A and then those of B, which is the state that the model running each
  expansion at once gives.
\<close>

theorem expansions_interleave:
  "handleAddFiles_async [ex_A, ex_B] (setTool ''reorder'' initial, []) = Inr ex_started \<and>
   snd ex_started = [Loading ex_A 0, Loading ex_B 1] \<and>
   handleAddFiles ex_js [ex_A, ex_B] (setTool ''reorder'' initial) =
     Inr (fst (run_schedule ex_js (replicate 16 0) ex_started)) \<and>
   snd (run_schedule ex_js (replicate 16 0) ex_started) = [] \<and>
   page_entries (fileList (fst (run_schedule ex_js (replicate 16 0) ex_started))) =
     [(0, 1, True), (0, 2, True), (0, 3, True), (0, 4, True), (0, 5, True),
      (1, 1, True), (1, 2, True)] \<and>
   snd (run_schedule ex_js (concat (replicate 11 [0, 1])) ex_started) = [] \<and>
   page_entries (fileList (fst (run_schedule ex_js (concat (replicate 11 [0, 1])) ex_started))) =
     [(0, 1, True), (1, 1, True), (0, 2, True), (1, 2, True), (0, 3, True),
      (0, 4, True), (0, 5, True)] \<and>
   map_sum id (map (\<lambda>b. ((fileIndex b, bfile b), pages b)))
     (forEach_batches
        (organizePages (fst (run_schedule ex_js (concat (replicate 11 [0, 1])) ex_started))) []
        (selectedPageItems (fst (run_schedule ex_js (concat (replicate 11 [0, 1])) ex_started)))) =
     Inr [((0, ex_A), [1]), ((1, ex_B), [1]), ((0, ex_A), [2]), ((1, ex_B), [2]),
          ((0, ex_A), [3, 4, 5])]"
proof -
  have a: "handleAddFiles_async [ex_A, ex_B] (setTool ''reorder'' initial, []) = Inr ex_started"
    using ex_started_eval by (rule conjunct1)
  have b: "snd ex_started = [Loading ex_A 0, Loading ex_B 1]"
    unfolding conjunct2 [OF ex_started_eval] by simp
  have c: "snd (run_schedule ex_js (replicate 16 0) ex_started) = []"
    unfolding ex_in_turn by simp
  have d: "page_entries (fileList (fst (run_schedule ex_js (replicate 16 0) ex_started))) =
     [(0, 1, True), (0, 2, True), (0, 3, True), (0, 4, True), (0, 5, True),
      (1, 1, True), (1, 2, True)]"
    unfolding ex_in_turn by (simp add: page_entries_def)
  have e: "snd (run_schedule ex_js (concat (replicate 11 [0, 1])) ex_started) = []"
    unfolding ex_round_robin by simp
  have f: "page_entries (fileList (fst (run_schedule ex_js (concat (replicate 11 [0, 1])) ex_started))) =
     [(0, 1, True), (1, 1, True), (0, 2, True), (1, 2, True), (0, 3, True),
      (0, 4, True), (0, 5, True)]"
    unfolding ex_round_robin by (simp add: page_entries_def)
  have g: "map_sum id (map (\<lambda>b. ((fileIndex b, bfile b), pages b)))
     (forEach_batches
        (organizePages (fst (run_schedule ex_js (concat (replicate 11 [0, 1])) ex_started))) []
        (selectedPageItems (fst (run_schedule ex_js (concat (replicate 11 [0, 1])) ex_started)))) =
     Inr [((0, ex_A), [1]), ((1, ex_B), [1]), ((0, ex_A), [2]), ((1, ex_B), [2]),
          ((0, ex_A), [3, 4, 5])]"
    unfolding ex_round_robin by (simp add: selectedPageItems_def batch_step_def)
  show ?thesis
    by (intro conjI) (fact a b ex_sync c d e f g)+
qed

end
